theory Spec2Isabelle
  imports
    Complex_Main
    "HOL-Library.Sublist"
    "HOL-Library.Char_ord"
    "HOL-Library.List_Lexorder"
    "HOL-Library.Multiset"
begin

section \<open>The temple finder: scoring, filtering, ranking and insights\<close>

text \<open>
  A shallow embedding of \<^verbatim>\<open>src/app/components/TempleFinder.tsx\<close>. The catalogue
  \<^verbatim>\<open>temples\<close> and the type \<^verbatim>\<open>Temple\<close> are imported by the source from
  \<^verbatim>\<open>lib/data/temples\<close>; here the catalogue is a parameter of every function that reads it,
  and the record below has the fields the two components read.

  Conventions of the embedding:
  \<^item> a JavaScript string is a \<^typ>\<open>string\<close>; case folding and trimming are the ones of the
    ASCII range;
  \<^item> a finite number is the rational it denotes. The \<^verbatim>\<open>founded\<close> year of a temple is an
    \<^typ>\<open>int\<close>, its \<^verbatim>\<open>significanceScore\<close> a finite double. Products, sums and quotients
    of scores and years are rounded as binary64 arithmetic rounds them (to the nearest
    double, a tie to the even one), so that \<^verbatim>\<open>90 * 0.7\<close> is the double below 63. Where
    the source divides or hands a difference to a sort, the result is a \<open>number\<close>, which
    also has the infinities and NaN. A difference handed to a sort is kept exact: the
    sort reads its sign only, and the rounded difference of two doubles has the sign of
    the exact one;
  \<^item> \<^verbatim>\<open>undefined\<close> is \<^term>\<open>None\<close>.
\<close>

subsection \<open>Strings\<close>

definition char_toLowerCase :: "char \<Rightarrow> char" where
  "char_toLowerCase c =
     (let n = (of_char c :: nat) in if 65 \<le> n \<and> n \<le> 90 then char_of (n + 32) else c)"

definition toLowerCase :: "string \<Rightarrow> string" where
  "toLowerCase s = map char_toLowerCase s"

text \<open>White space and line terminators of the ASCII range: TAB, LF, VT, FF, CR, SP.\<close>

definition is_whitespace :: "char \<Rightarrow> bool" where
  "is_whitespace c = ((of_char c :: nat) \<in> set [9, 10, 11, 12, 13, 32])"

definition trim :: "string \<Rightarrow> string" where
  "trim s = rev (dropWhile is_whitespace (rev (dropWhile is_whitespace s)))"

text \<open>\<^verbatim>\<open>Array.prototype.join\<close> on an array of strings.\<close>

fun join :: "string \<Rightarrow> string list \<Rightarrow> string" where
  "join sep [] = []"
| "join sep [x] = x"
| "join sep (x # y # ys) = x @ sep @ join sep (y # ys)"

text \<open>\<^verbatim>\<open>String.prototype.includes\<close>: the needle occurs in the haystack at some position.\<close>

fun String_includes :: "string \<Rightarrow> string \<Rightarrow> bool" where
  "String_includes [] needle = (needle = [])"
| "String_includes (h # hs) needle = (prefix needle (h # hs) \<or> String_includes hs needle)"

subsection \<open>Numbers\<close>

datatype number = Finite rat | PosInfinity | NegInfinity | NaN

text \<open>
  Rounding to binary64. The rational \<open>p / q\<close> is scaled by a power of two, \<open>2\<^sup>e\<close>, until
  its magnitude lies from \<open>2\<^sup>5\<^sup>2\<close> up to \<open>2\<^sup>5\<^sup>3\<close>, or \<open>e\<close> is the least exponent
  \<open>-1074\<close> (the subnormal range); the scaled value is rounded to the nearest integer, a
  tie to the even one; and the integer is scaled back. The two loops run on the numerator
  and the denominator: the first doubles the denominator while the magnitude is \<open>2\<^sup>5\<^sup>3\<close>
  or more, the second doubles the numerator while it is below \<open>2\<^sup>5\<^sup>2\<close>.
\<close>

function scale_down :: "int \<Rightarrow> int \<Rightarrow> int \<Rightarrow> int \<times> int \<times> int" where
  "scale_down p q e =
     (if 0 < q \<and> 9007199254740992 * q \<le> \<bar>p\<bar>
      then scale_down p (2 * q) (e + 1) else (p, q, e))"
  by pat_completeness auto
termination
  by (relation "measure (\<lambda>(p, q, e). nat (\<bar>p\<bar> - q))") auto

function scale_up :: "int \<Rightarrow> int \<Rightarrow> int \<Rightarrow> int \<times> int \<times> int" where
  "scale_up p q e =
     (if \<bar>p\<bar> < 4503599627370496 * q \<and> - 1074 < e
      then scale_up (2 * p) q (e - 1) else (p, q, e))"
  by pat_completeness auto
termination
  by (relation "measure (\<lambda>(p, q, e). nat (e + 1074))") auto

text \<open>The integer nearest to \<open>p / q\<close>, for a positive \<open>q\<close>; a tie goes to the even one.\<close>

definition round_half_even :: "int \<Rightarrow> int \<Rightarrow> int" where
  "round_half_even p q =
     (let n = p div q; r = p mod q in
      if 2 * r < q then n else if q < 2 * r then n + 1 else if even n then n else n + 1)"

definition two_to :: "int \<Rightarrow> rat" where
  "two_to e = (if 0 \<le> e then 2 ^ nat e else 1 / 2 ^ nat (- e))"

text \<open>
  The double nearest to a rational. No result of the source reaches the overflow
  threshold: a product with \<^verbatim>\<open>0.7\<close> is smaller than its factor, and a bonus or a year
  is far below half the distance between the largest doubles.
\<close>

definition round_double :: "rat \<Rightarrow> rat" where
  "round_double x =
     (if x = 0 then 0
      else case quotient_of x of (p, q) \<Rightarrow>
        (case scale_down p q 0 of (p1, q1, e1) \<Rightarrow>
          (case scale_up p1 q1 e1 of (p2, q2, e2) \<Rightarrow>
             of_int (round_half_even p2 q2) * two_to e2)))"

text \<open>The operators \<^verbatim>\<open>*\<close> and \<^verbatim>\<open>+\<close> on finite doubles.\<close>

definition times_double :: "rat \<Rightarrow> rat \<Rightarrow> rat" where
  "times_double a b = round_double (a * b)"

definition plus_double :: "rat \<Rightarrow> rat \<Rightarrow> rat" where
  "plus_double a b = round_double (a + b)"

text \<open>The literal \<^verbatim>\<open>0.7\<close>: the double nearest to seven tenths.\<close>

definition point_seven :: rat where
  "point_seven = round_double (7 / 10)"

text \<open>
  The quotient of two finite doubles; the divisor is never a negative zero where the
  source divides.
\<close>

definition divide_number :: "rat \<Rightarrow> rat \<Rightarrow> number" where
  "divide_number a b =
     (if b \<noteq> 0 then Finite (round_double (a / b))
      else if a = 0 then NaN
      else if 0 < a then PosInfinity else NegInfinity)"

text \<open>\<^verbatim>\<open>Math.round\<close>: the nearest integer, a half rounded up.\<close>

fun Math_round :: "number \<Rightarrow> number" where
  "Math_round (Finite x) = Finite (of_int \<lfloor>x + 1 / 2\<rfloor>)"
| "Math_round n = n"

fun Number_isNaN :: "number \<Rightarrow> bool" where
  "Number_isNaN NaN = True"
| "Number_isNaN n = False"

subsection \<open>Arrays, sets and maps\<close>

text \<open>
  \<^verbatim>\<open>Array.prototype.sort\<close> with a comparator. The sort is stable; \<open>a\<close> is placed after
  \<open>b\<close> only where the comparator's value for \<open>(a, b)\<close> is positive, and a comparator value
  of NaN counts as zero. For a consistent comparator the result is the only one the
  language allows; it is computed here by insertion from the right. For an inconsistent
  comparator the language leaves the order to the implementation, and nothing below
  rests on the order computed here.
\<close>

fun positive :: "number \<Rightarrow> bool" where
  "positive (Finite v) = (0 < v)"
| "positive PosInfinity = True"
| "positive NegInfinity = False"
| "positive NaN = False"

fun insert_sorted :: "('a \<Rightarrow> 'a \<Rightarrow> number) \<Rightarrow> 'a \<Rightarrow> 'a list \<Rightarrow> 'a list" where
  "insert_sorted cmp x [] = [x]"
| "insert_sorted cmp x (y # ys) =
     (if positive (cmp x y) then y # insert_sorted cmp x ys else x # y # ys)"

definition Array_sort :: "('a \<Rightarrow> 'a \<Rightarrow> number) \<Rightarrow> 'a list \<Rightarrow> 'a list" where
  "Array_sort cmp xs = foldr (insert_sorted cmp) xs []"

text \<open>
  A \<^verbatim>\<open>Set\<close> is the list of its members in insertion order: adding a member that is
  present changes nothing, a new member goes to the end. \<^verbatim>\<open>Array.from\<close> of the set (or
  of its \<^verbatim>\<open>values()\<close>) is that list.
\<close>

definition Set_add :: "'a list \<Rightarrow> 'a \<Rightarrow> 'a list" where
  "Set_add s x = (if x \<in> set s then s else s @ [x])"

definition new_Set :: "'a list \<Rightarrow> 'a list" where
  "new_Set xs = foldl Set_add [] xs"

text \<open>
  A \<^verbatim>\<open>Map\<close> is the list of its entries in insertion order: setting a key that is present
  replaces the value where the entry stands, a new key goes to the end.
\<close>

fun Map_get :: "('k \<times> 'v) list \<Rightarrow> 'k \<Rightarrow> 'v option" where
  "Map_get [] k = None"
| "Map_get ((k', v) # es) k = (if k' = k then Some v else Map_get es k)"

fun Map_set :: "('k \<times> 'v) list \<Rightarrow> 'k \<Rightarrow> 'v \<Rightarrow> ('k \<times> 'v) list" where
  "Map_set [] k v = [(k, v)]"
| "Map_set ((k', v') # es) k v = (if k' = k then (k, v) # es else (k', v') # Map_set es k v)"

subsection \<open>Plain objects used as records of counts\<close>

text \<open>
  The tradition counts are accumulated in an object literal \<^verbatim>\<open>{}\<close>, whose prototype is
  \<^verbatim>\<open>Object.prototype\<close>. Three things of the language show through:
  \<^item> reading a key that is no own property finds the members of the prototype
    (\<^verbatim>\<open>constructor\<close>, \<^verbatim>\<open>toString\<close>, ...), which are not nullish, so that \<^verbatim>\<open>?? 0\<close>
    keeps them; adding 1 to a function or an object makes a string that is no numeral,
    and so does adding 1 to such a string;
  \<^item> assigning a primitive value to \<^verbatim>\<open>__proto__\<close> does nothing;
  \<^item> \<^verbatim>\<open>Object.entries\<close> lists the own keys that are array indices first, in ascending
    numeric order, and then the other keys in the order of their creation.
  A value held by such an object is a count or something that is not a number.
\<close>

datatype jsvalue = Count nat | NotANumber

definition Object_prototype_names :: "string list" where
  "Object_prototype_names =
     [''constructor'', ''__defineGetter__'', ''__defineSetter__'', ''hasOwnProperty'',
      ''__lookupGetter__'', ''__lookupSetter__'', ''isPrototypeOf'',
      ''propertyIsEnumerable'', ''toString'', ''valueOf'', ''__proto__'',
      ''toLocaleString'']"

definition Object_get :: "(string \<times> jsvalue) list \<Rightarrow> string \<Rightarrow> jsvalue option" where
  "Object_get obj k =
     (case Map_get obj k of
        Some v \<Rightarrow> Some v
      | None \<Rightarrow> if k \<in> set Object_prototype_names then Some NotANumber else None)"

definition Object_set :: "(string \<times> jsvalue) list \<Rightarrow> string \<Rightarrow> jsvalue \<Rightarrow> (string \<times> jsvalue) list" where
  "Object_set obj k v = (if k = ''__proto__'' then obj else Map_set obj k v)"

text \<open>\<^verbatim>\<open>(x ?? 0) + 1\<close> for the values such an object can hold.\<close>

fun increment :: "jsvalue option \<Rightarrow> jsvalue" where
  "increment None = Count 1"
| "increment (Some (Count n)) = Count (n + 1)"
| "increment (Some NotANumber) = NotANumber"

definition is_digit :: "char \<Rightarrow> bool" where
  "is_digit c = (let n = (of_char c :: nat) in 48 \<le> n \<and> n \<le> 57)"

definition digits_value :: "string \<Rightarrow> int" where
  "digits_value s = foldl (\<lambda>acc c. 10 * acc + (of_char c - 48)) 0 s"

text \<open>
  An array index is the canonical decimal numeral of an integer from 0 to \<open>2\<^sup>3\<^sup>2 - 2\<close>.
\<close>

definition array_index :: "string \<Rightarrow> int option" where
  "array_index k =
     (if k \<noteq> [] \<and> list_all is_digit k \<and> (k = ''0'' \<or> hd k \<noteq> CHR ''0'')
         \<and> digits_value k < 4294967295
      then Some (digits_value k) else None)"

definition Object_entries :: "(string \<times> 'v) list \<Rightarrow> (string \<times> 'v) list" where
  "Object_entries obj =
     sort_key (\<lambda>e. the (array_index (fst e))) (filter (\<lambda>e. array_index (fst e) \<noteq> None) obj)
     @ filter (\<lambda>e. array_index (fst e) = None) obj"

text \<open>
  A key for which such an object behaves as a map with insertion order: no array index,
  and not the name of a member of the prototype.
\<close>

definition plain_key :: "string \<Rightarrow> bool" where
  "plain_key k = (array_index k = None \<and> k \<notin> set Object_prototype_names)"

subsection \<open>The data\<close>

text \<open>
  A temple; the field \<^verbatim>\<open>id\<close> of the source is \<open>temple_id\<close> here.
\<close>

record Temple =
  temple_id :: string
  name :: string
  city :: string
  country :: string
  description :: string
  website :: "string option"
  region :: string
  tradition :: string
  environment :: string
  founded :: int
  highlights :: "string list"
  features :: "string list"
  significanceScore :: rat
  visitingHours :: string
  bestVisit :: string

datatype SortOption = Relevance | Oldest | Newest | Significance

definition ALL_OPTION :: string where
  "ALL_OPTION = ''All''"

text \<open>The state of the component: its six \<^verbatim>\<open>useState\<close> cells.\<close>

record QueryState =
  searchTerm :: string
  selectedRegion :: string
  selectedTradition :: string
  selectedEnvironment :: string
  selectedFeature :: string
  sortOrder :: SortOption

text \<open>
  The object literal handed to \<^verbatim>\<open>matchesFilters\<close>; its fields \<^verbatim>\<open>region\<close>,
  \<^verbatim>\<open>tradition\<close>, \<^verbatim>\<open>feature\<close> and \<^verbatim>\<open>environment\<close> carry the prefix \<open>opt_\<close>, the
  plain names being fields of a temple.
\<close>

record options =
  opt_region :: string
  opt_tradition :: string
  opt_feature :: string
  opt_environment :: string

record ScoredResult =
  temple :: Temple
  score :: rat

record Insights =
  uniqueCountries :: nat
  mostCommonTradition :: "string option"
  averageFoundedYear :: number
  standoutFeature :: "string option"

subsection \<open>The facet lists\<close>

definition regions :: "Temple list \<Rightarrow> string list" where
  "regions temples = ALL_OPTION # new_Set (map region temples)"

definition traditions :: "Temple list \<Rightarrow> string list" where
  "traditions temples = ALL_OPTION # new_Set (map tradition temples)"

definition environments :: "Temple list \<Rightarrow> string list" where
  "environments temples = ALL_OPTION # new_Set (map environment temples)"

text \<open>
  The source's \<^verbatim>\<open>features\<close> (the name is taken by the field of a temple). The sort has
  no comparator: strings are compared code unit by code unit, a proper prefix first, which
  is the order of \<^typ>\<open>string\<close> here.
\<close>

definition features_options :: "Temple list \<Rightarrow> string list" where
  "features_options temples =
     ALL_OPTION # sort (foldl (\<lambda>acc t. foldl Set_add acc (features t)) [] temples)"

subsection \<open>Scoring and filtering\<close>

definition haystacks :: "Temple \<Rightarrow> string" where
  "haystacks t =
     toLowerCase
       (join '' ''
          [name t, city t, country t, description t,
           join '' '' (highlights t), join '' '' (features t)])"

definition scoreTemple :: "Temple \<Rightarrow> string \<Rightarrow> rat" where
  "scoreTemple t normalizedSearch =
     (let base = significanceScore t in
      if normalizedSearch = [] then base
      else if \<not> String_includes (haystacks t) normalizedSearch
      then times_double base point_seven
      else
        let nameMatch =
              (if String_includes (toLowerCase (name t)) normalizedSearch then 25 else 0);
            cityMatch =
              (if String_includes (toLowerCase (city t)) normalizedSearch then 15 else 0);
            featureMatch =
              (if list_ex (\<lambda>feature. String_includes (toLowerCase feature) normalizedSearch)
                    (features t)
               then 10 else 0)
        in plus_double (plus_double (plus_double base nameMatch) cityMatch) featureMatch)"

definition matchesFilters :: "Temple \<Rightarrow> options \<Rightarrow> bool" where
  "matchesFilters t opts =
     (let regionMatch = (opt_region opts = ALL_OPTION \<or> region t = opt_region opts);
          traditionMatch = (opt_tradition opts = ALL_OPTION \<or> tradition t = opt_tradition opts);
          environmentMatch =
            (opt_environment opts = ALL_OPTION \<or> environment t = opt_environment opts);
          featureMatch =
            (opt_feature opts = ALL_OPTION \<or> opt_feature opts \<in> set (features t))
      in regionMatch \<and> traditionMatch \<and> environmentMatch \<and> featureMatch)"

subsection \<open>The ranked list\<close>

definition normalizedSearch :: "QueryState \<Rightarrow> string" where
  "normalizedSearch q = toLowerCase (trim (searchTerm q))"

text \<open>The comparator handed to the sort, for each sort order.\<close>

fun compare :: "SortOption \<Rightarrow> ScoredResult \<Rightarrow> ScoredResult \<Rightarrow> number" where
  "compare Oldest a b = Finite (of_int (founded (temple a) - founded (temple b)))"
| "compare Newest a b = Finite (of_int (founded (temple b) - founded (temple a)))"
| "compare Significance a b =
     Finite (significanceScore (temple b) - significanceScore (temple a))"
| "compare Relevance a b = Finite (score b - score a)"

text \<open>
  The steps of \<^verbatim>\<open>rankedTemples\<close>: every temple of the catalogue is paired with its
  score, the pairs whose temple matches the selected filters are retained, and the
  retained pairs are sorted.
\<close>

definition selection :: "QueryState \<Rightarrow> options" where
  "selection q =
     \<lparr>opt_region = selectedRegion q, opt_tradition = selectedTradition q,
      opt_feature = selectedFeature q, opt_environment = selectedEnvironment q\<rparr>"

definition scored :: "QueryState \<Rightarrow> Temple \<Rightarrow> ScoredResult" where
  "scored q t = \<lparr>temple = t, score = scoreTemple t (normalizedSearch q)\<rparr>"

definition retained :: "Temple list \<Rightarrow> QueryState \<Rightarrow> ScoredResult list" where
  "retained temples q =
     filter (\<lambda>r. matchesFilters (temple r) (selection q)) (map (scored q) temples)"

definition rankedTemples :: "Temple list \<Rightarrow> QueryState \<Rightarrow> ScoredResult list" where
  "rankedTemples temples q = Array_sort (compare (sortOrder q)) (retained temples q)"

subsection \<open>The insights\<close>

definition topTraditions :: "ScoredResult list \<Rightarrow> (string \<times> jsvalue) list" where
  "topTraditions results =
     foldl (\<lambda>acc r. Object_set acc (tradition (temple r))
                      (increment (Object_get acc (tradition (temple r)))))
       [] results"

text \<open>
  The difference of two values of the object, as the comparator
  \<^verbatim>\<open>(a, b) => b[1] - a[1]\<close> takes it: a value that is not a number makes it NaN.
\<close>

fun subtract :: "jsvalue \<Rightarrow> jsvalue \<Rightarrow> number" where
  "subtract (Count m) (Count n) = Finite (of_nat m - of_nat n)"
| "subtract x y = NaN"

text \<open>
  The \<^verbatim>\<open>Map\<close> of feature counts, which the source binds to the local name
  \<^verbatim>\<open>standoutFeature\<close> (here the name of the field of the insights).
\<close>

definition featureCounts :: "ScoredResult list \<Rightarrow> (string \<times> nat) list" where
  "featureCounts results =
     foldl (\<lambda>acc feature.
              Map_set acc feature ((case Map_get acc feature of None \<Rightarrow> 0 | Some n \<Rightarrow> n) + 1))
       [] (concat (map (\<lambda>r. features (temple r)) results))"

definition insights :: "ScoredResult list \<Rightarrow> Insights" where
  "insights results =
     \<lparr>uniqueCountries = length (new_Set (map (\<lambda>r. country (temple r)) results)),
      mostCommonTradition =
        (case Array_sort (\<lambda>a b. subtract (snd b) (snd a)) (Object_entries (topTraditions results)) of
           [] \<Rightarrow> None
         | e # es \<Rightarrow> Some (fst e)),
      averageFoundedYear =
        Math_round
          (divide_number
             (foldl (\<lambda>acc r. plus_double acc (of_int (founded (temple r)))) 0 results)
             (of_nat (max (length results) 1))),
      standoutFeature =
        (case Array_sort (\<lambda>a b. Finite (of_nat (snd b) - of_nat (snd a))) (featureCounts results) of
           [] \<Rightarrow> None
         | e # es \<Rightarrow> Some (fst e))\<rparr>"

text \<open>
  What the component shows for the average: the dash, here \<^term>\<open>None\<close>, where the average
  is NaN, and the average otherwise.
\<close>

definition averageShown :: "Insights \<Rightarrow> number option" where
  "averageShown i =
     (if Number_isNaN (averageFoundedYear i) then None else Some (averageFoundedYear i))"

subsection \<open>Notions of the specification\<close>

text \<open>
  The distinct values of a list in the order in which each is seen first.
\<close>

fun first_seen :: "'a list \<Rightarrow> 'a list" where
  "first_seen [] = []"
| "first_seen (x # xs) = x # first_seen (filter (\<lambda>y. y \<noteq> x) xs)"

text \<open>
  The value with the highest number of occurrences in a list; among several with that
  number, the one whose first occurrence comes first. No value for the empty list.
\<close>

definition first_most_common :: "'a list \<Rightarrow> 'a option" where
  "first_most_common xs =
     find (\<lambda>x. list_all (\<lambda>y. count_list xs y \<le> count_list xs x) xs) xs"

text \<open>
  The condition of one facet dimension: the selection is the sentinel, or it is the
  temple's value (for the features: one of the temple's values).
\<close>

definition passes_single :: "string \<Rightarrow> string \<Rightarrow> bool" where
  "passes_single sel v = (sel = ALL_OPTION \<or> v = sel)"

definition passes_feature :: "string \<Rightarrow> string list \<Rightarrow> bool" where
  "passes_feature sel vs = (sel = ALL_OPTION \<or> sel \<in> set vs)"

text \<open>
  The integer nearest to a rational, a tie going to the even one; and the normal form of
  a rational as a binary64 number: a significand \<open>m\<close> of magnitude below \<open>2\<^sup>5\<^sup>3\<close> and an
  exponent \<open>e\<close>, the significand at least \<open>2\<^sup>5\<^sup>2\<close> in magnitude unless the exponent is the
  least one.
\<close>

definition nearest_even :: "rat \<Rightarrow> int" where
  "nearest_even x =
     (let n = \<lfloor>x\<rfloor>; r = x - of_int n in
      if r < 1 / 2 then n else if 1 / 2 < r then n + 1 else if even n then n else n + 1)"

definition normal_form :: "rat \<Rightarrow> rat \<Rightarrow> int \<Rightarrow> bool" where
  "normal_form x m e =
     (x = m * two_to e \<and> \<bar>m\<bar> < 9007199254740992 \<and> - 1074 \<le> e
      \<and> (4503599627370496 \<le> \<bar>m\<bar> \<or> e = - 1074))"

text \<open>
  Alphabetical order is the order of the dictionary, which does not tell an upper-case
  letter from the lower-case one.
\<close>

definition alphabetical :: "string list \<Rightarrow> bool" where
  "alphabetical xs = sorted (map toLowerCase xs)"

subsection \<open>An example catalogue\<close>

definition angkorWat :: Temple where
  "angkorWat =
     \<lparr>temple_id = ''angkor-wat'', name = ''Angkor Wat'', city = ''Siem Reap'',
      country = ''Cambodia'', description = ''Temple mountain'', website = None,
      region = ''Southeast Asia'', tradition = ''Hindu-Buddhist'', environment = ''Jungle'',
      founded = 1113, highlights = [''Bas-reliefs''],
      features = [''UNESCO Site'', ''Sunrise Views''], significanceScore = 95,
      visitingHours = ''5:00-17:30'', bestVisit = ''Sunrise''\<rparr>"

definition borobudur :: Temple where
  "borobudur =
     \<lparr>temple_id = ''borobudur'', name = ''Borobudur'', city = ''Magelang'',
      country = ''Indonesia'', description = ''Mandala in stone'', website = None,
      region = ''Southeast Asia'', tradition = ''Buddhist'', environment = ''Volcanic'',
      founded = 800, highlights = [''Stupas''],
      features = [''UNESCO Site''], significanceScore = 90,
      visitingHours = ''6:30-16:30'', bestVisit = ''Dawn''\<rparr>"

definition kinkakuji :: Temple where
  "kinkakuji =
     \<lparr>temple_id = ''kinkaku-ji'', name = ''Kinkaku-ji'', city = ''Kyoto'',
      country = ''Japan'', description = ''Golden pavilion'', website = None,
      region = ''East Asia'', tradition = ''Zen'', environment = ''Garden'',
      founded = 1397, highlights = [''Mirror pond''],
      features = [''Ukiyo Prints'', ''Zen Garden''], significanceScore = 88,
      visitingHours = ''9:00-17:00'', bestVisit = ''Autumn''\<rparr>"

definition allQuery :: "string \<Rightarrow> SortOption \<Rightarrow> QueryState" where
  "allQuery term order =
     \<lparr>searchTerm = term, selectedRegion = ALL_OPTION, selectedTradition = ALL_OPTION,
      selectedEnvironment = ALL_OPTION, selectedFeature = ALL_OPTION, sortOrder = order\<rparr>"

section \<open>Properties\<close>

subsection \<open>Strings\<close>

lemma String_includes_iff:
  "String_includes hay needle \<longleftrightarrow> (\<exists>ps ss. hay = ps @ needle @ ss)"
proof (induction hay)
  case Nil
  then show ?case by auto
next
  case (Cons h hs)
  show ?case
  proof
    assume "String_includes (h # hs) needle"
    then consider "prefix needle (h # hs)" | "String_includes hs needle" by auto
    then show "\<exists>ps ss. h # hs = ps @ needle @ ss"
    proof cases
      case 1
      then obtain ss where "h # hs = needle @ ss" by (auto simp: prefix_def)
      then have "h # hs = [] @ needle @ ss" by simp
      then show ?thesis by blast
    next
      case 2
      with Cons.IH obtain ps ss where "hs = ps @ needle @ ss" by blast
      then have "h # hs = (h # ps) @ needle @ ss" by simp
      then show ?thesis by blast
    qed
  next
    assume "\<exists>ps ss. h # hs = ps @ needle @ ss"
    then obtain ps ss where eq: "h # hs = ps @ needle @ ss" by blast
    show "String_includes (h # hs) needle"
    proof (cases ps)
      case Nil
      with eq have "prefix needle (h # hs)" by (simp add: prefix_def)
      then show ?thesis by simp
    next
      case (Cons p ps')
      with eq have "hs = ps' @ needle @ ss" by simp
      with Cons.IH have "String_includes hs needle" by blast
      then show ?thesis by simp
    qed
  qed
qed

lemma String_includes_append_left:
  "String_includes a needle \<Longrightarrow> String_includes (a @ b) needle"
  unfolding String_includes_iff by (metis append.assoc)

lemma toLowerCase_append: "toLowerCase (a @ b) = toLowerCase a @ toLowerCase b"
  by (simp add: toLowerCase_def)

lemma haystacks_name: "\<exists>rest. haystacks t = toLowerCase (name t) @ rest"
  by (simp add: haystacks_def toLowerCase_append)

lemma name_in_haystacks:
  "String_includes (toLowerCase (name t)) needle \<Longrightarrow> String_includes (haystacks t) needle"
  using haystacks_name [of t] String_includes_append_left by metis

subsection \<open>The sort is a permutation\<close>

lemma mset_insert_sorted: "mset (insert_sorted cmp x ys) = add_mset x (mset ys)"
  by (induction ys) auto

lemma mset_Array_sort: "mset (Array_sort cmp xs) = mset xs"
  unfolding Array_sort_def by (induction xs) (auto simp: mset_insert_sorted)

lemma set_Array_sort: "set (Array_sort cmp xs) = set xs"
  using mset_Array_sort [of cmp xs] by (metis set_mset_mset)

lemma temple_scored: "temple (scored q t) = t"
  by (simp add: scored_def)

lemma map_temple_retained:
  "map temple (retained temples q) = filter (\<lambda>t. matchesFilters t (selection q)) temples"
  by (induction temples) (auto simp: retained_def temple_scored)

lemma set_rankedTemples:
  "set (rankedTemples temples q) =
     scored q ` {t \<in> set temples. matchesFilters t (selection q)}"
  unfolding rankedTemples_def set_Array_sort retained_def
  by (auto simp: temple_scored)

subsection \<open>Scoring\<close>

text \<open>
  Claim C9. For every temple and every search term whose trimmed, case-folded form is
  empty, the score of the temple for that form is its \<^verbatim>\<open>significanceScore\<close>, unchanged;
  that is also the score the ranked list carries for the temple.
\<close>

theorem empty_query_keeps_significance:
  assumes "normalizedSearch q = []"
  shows "scoreTemple t (normalizedSearch q) = significanceScore t
     \<and> score (scored q t) = significanceScore t"
  using assms by (simp add: scoreTemple_def scored_def)

theorem empty_query_keeps_significance_witness:
  "normalizedSearch (allQuery [CHR 0x20, CHR 0x09, CHR 0x20] Relevance) = []
   \<and> scoreTemple angkorWat (normalizedSearch (allQuery [CHR 0x20, CHR 0x09, CHR 0x20] Relevance)) = 95
   \<and> score (scored (allQuery [CHR 0x20, CHR 0x09, CHR 0x20] Relevance) angkorWat) = 95"
proof -
  have h: "normalizedSearch (allQuery [CHR 0x20, CHR 0x09, CHR 0x20] Relevance) = []"
    by code_simp
  have s: "significanceScore angkorWat = 95"
    by (simp add: angkorWat_def)
  from empty_query_keeps_significance [OF h, of angkorWat] h s show ?thesis
    by simp
qed

text \<open>
  Claim C2. For every temple and every non-empty normalized query that does not occur in
  the temple's combined, case-folded text (name, city, country, description, joined
  highlights, joined features), the score is \<^verbatim>\<open>significanceScore * 0.7\<close>: the product of
  the two doubles, as the language computes it. The temple is not excluded for the miss:
  if it is in the catalogue and passes the filters, it stands in the ranked list with
  that score, whatever the sort order.
\<close>

theorem miss_is_penalised_not_excluded:
  assumes "needle \<noteq> []" and "\<not> String_includes (haystacks t) needle"
  shows "scoreTemple t needle = times_double (significanceScore t) point_seven
     \<and> (normalizedSearch q = needle \<and> t \<in> set temples \<and> matchesFilters t (selection q)
          \<longrightarrow> \<lparr>temple = t, score = times_double (significanceScore t) point_seven\<rparr>
                \<in> set (rankedTemples temples q))"
proof -
  have sc: "scoreTemple t needle = times_double (significanceScore t) point_seven"
    using assms by (simp add: scoreTemple_def)
  have "\<lparr>temple = t, score = times_double (significanceScore t) point_seven\<rparr>
          \<in> set (rankedTemples temples q)"
    if "normalizedSearch q = needle" "t \<in> set temples" "matchesFilters t (selection q)"
  proof -
    from that(1) sc
    have "scored q t = \<lparr>temple = t, score = times_double (significanceScore t) point_seven\<rparr>"
      by (simp add: scored_def)
    with that(2,3) show ?thesis
      unfolding set_rankedTemples by force
  qed
  with sc show ?thesis by blast
qed

text \<open>
  For the score 90 the product is the double next below 63; for 95 it is 66.5.
\<close>

theorem miss_is_penalised_not_excluded_witness:
  "''zzz'' \<noteq> [] \<and> \<not> String_includes (haystacks borobudur) ''zzz''
   \<and> scoreTemple borobudur ''zzz'' = 8866461766385663 / 140737488355328
   \<and> \<lparr>temple = borobudur, score = 8866461766385663 / 140737488355328\<rparr>
       \<in> set (rankedTemples [borobudur, angkorWat] (allQuery '' ZZZ '' Oldest))
   \<and> times_double (significanceScore angkorWat) point_seven = 133 / 2"
proof -
  have h1: "''zzz'' \<noteq> []" by simp
  have h2: "\<not> String_includes (haystacks borobudur) ''zzz''" by code_simp
  have n: "normalizedSearch (allQuery '' ZZZ '' Oldest) = ''zzz''" by code_simp
  have m: "matchesFilters borobudur (selection (allQuery '' ZZZ '' Oldest))" by code_simp
  have s: "times_double (significanceScore borobudur) point_seven
             = 8866461766385663 / 140737488355328"
    by code_simp
  have a: "times_double (significanceScore angkorWat) point_seven = 133 / 2"
    by code_simp
  from miss_is_penalised_not_excluded
         [OF h1 h2, of "allQuery '' ZZZ '' Oldest" "[borobudur, angkorWat]"] h2 n m
  have "scoreTemple borobudur ''zzz'' = times_double (significanceScore borobudur) point_seven"
    and "\<lparr>temple = borobudur, score = times_double (significanceScore borobudur) point_seven\<rparr>
       \<in> set (rankedTemples [borobudur, angkorWat] (allQuery '' ZZZ '' Oldest))"
    by simp_all
  with h1 h2 a show ?thesis
    by (simp only: s simp_thms)
qed

subsection \<open>Rounding to binary64\<close>

lemma two_to_powi: "two_to e = 2 powi e"
  by (simp add: two_to_def power_int_def power_one_over)

lemma two_to_pos: "0 < two_to e"
  by (simp add: two_to_powi zero_less_power_int)

lemma two_to_add: "two_to (a + b) = two_to a * two_to b"
  by (simp add: two_to_powi power_int_add)

lemma two_to_succ: "two_to (e + 1) = 2 * two_to e"
  using two_to_add [of e 1] by (simp add: two_to_def)

lemma two_to_mono: "a \<le> b \<Longrightarrow> two_to a \<le> two_to b"
  by (simp add: two_to_powi power_int_increasing)

lemma two_to_zero: "two_to 0 = 1"
  by (simp add: two_to_def)

lemma round_half_even_nearest:
  assumes "0 < q"
  shows "round_half_even p q = nearest_even (of_int p / of_int q)"
proof -
  let ?x = "of_int p / of_int q :: rat"
  have fl: "\<lfloor>?x\<rfloor> = p div q"
    by (rule floor_divide_of_int_eq)
  have "of_int p = (of_int (p div q) * of_int q + of_int (p mod q) :: rat)"
    by (metis of_int_add of_int_mult div_mult_mod_eq)
  then have fr: "?x - of_int (p div q) = of_int (p mod q) / of_int q"
    using assms by (simp add: field_simps)
  have lt: "of_int (p mod q) / of_int q < (1 / 2 :: rat) \<longleftrightarrow> 2 * (p mod q) < q"
  proof -
    have "of_int (p mod q) / of_int q < (1 / 2 :: rat)
            \<longleftrightarrow> (of_int (2 * (p mod q)) :: rat) < of_int q"
      using assms by (simp add: field_simps)
    then show ?thesis by (simp only: of_int_less_iff)
  qed
  have gt: "(1 / 2 :: rat) < of_int (p mod q) / of_int q \<longleftrightarrow> q < 2 * (p mod q)"
  proof -
    have "(1 / 2 :: rat) < of_int (p mod q) / of_int q
            \<longleftrightarrow> (of_int q :: rat) < of_int (2 * (p mod q))"
      using assms by (simp add: field_simps)
    then show ?thesis by (simp only: of_int_less_iff)
  qed
  show ?thesis
    unfolding round_half_even_def nearest_even_def Let_def fl fr lt gt ..
qed

lemma nearest_even_of_int: "nearest_even (of_int k) = k"
  by (simp add: nearest_even_def)

lemma nearest_even_range:
  "nearest_even x = \<lfloor>x\<rfloor> \<or> nearest_even x = \<lfloor>x\<rfloor> + 1"
  by (simp add: nearest_even_def Let_def)

lemma nearest_even_mono:
  assumes "a \<le> b"
  shows "nearest_even a \<le> nearest_even b"
proof (cases "\<lfloor>a\<rfloor> = \<lfloor>b\<rfloor>")
  case True
  then have "a - of_int \<lfloor>a\<rfloor> \<le> b - of_int \<lfloor>b\<rfloor>"
    using assms by simp
  with True show ?thesis
    by (auto simp: nearest_even_def Let_def)
next
  case False
  moreover have "\<lfloor>a\<rfloor> \<le> \<lfloor>b\<rfloor>"
    using assms by (rule floor_mono)
  ultimately have "\<lfloor>a\<rfloor> + 1 \<le> \<lfloor>b\<rfloor>" by simp
  moreover have "nearest_even a \<le> \<lfloor>a\<rfloor> + 1"
    using nearest_even_range [of a] by auto
  moreover have "\<lfloor>b\<rfloor> \<le> nearest_even b"
    using nearest_even_range [of b] by auto
  ultimately show ?thesis by simp
qed

lemma nearest_even_ge: "of_int k \<le> x \<Longrightarrow> k \<le> nearest_even x"
  using nearest_even_mono [of "of_int k" x] by (simp add: nearest_even_of_int)

lemma nearest_even_le: "x \<le> of_int k \<Longrightarrow> nearest_even x \<le> k"
  using nearest_even_mono [of x "of_int k"] by (simp add: nearest_even_of_int)

lemma scale_down_props:
  assumes "scale_down p q e = (p', q', e')" and "0 < q"
  shows "p' = p \<and> 0 < q'
     \<and> of_int p / of_int q' * two_to e' = of_int p / of_int q * two_to e
     \<and> \<bar>p\<bar> < 9007199254740992 * q' \<and> e \<le> e'
     \<and> (e' = e \<and> q' = q \<or> 4503599627370496 * q' \<le> \<bar>p\<bar>)"
  using assms
proof (induction p q e rule: scale_down.induct)
  case (1 p q e)
  show ?case
  proof (cases "9007199254740992 * q \<le> \<bar>p\<bar>")
    case True
    with "1.prems" have call: "scale_down p (2 * q) (e + 1) = (p', q', e')"
      by (simp add: scale_down.simps [of p q e])
    have "0 < 2 * q" using "1.prems"(2) by simp
    with "1.IH" True "1.prems"(2) call
    have IH: "p' = p \<and> 0 < q'
     \<and> of_int p / of_int q' * two_to e' = of_int p / of_int (2 * q) * two_to (e + 1)
     \<and> \<bar>p\<bar> < 9007199254740992 * q' \<and> e + 1 \<le> e'
     \<and> (e' = e + 1 \<and> q' = 2 * q \<or> 4503599627370496 * q' \<le> \<bar>p\<bar>)"
      by simp
    have "of_int p / of_int (2 * q) * two_to (e + 1) = of_int p / of_int q * two_to e"
      by (simp add: two_to_succ)
    moreover have "4503599627370496 * q' \<le> \<bar>p\<bar>"
      using IH True by auto
    ultimately show ?thesis
      using IH by simp
  next
    case False
    with "1.prems" show ?thesis
      by (simp add: scale_down.simps [of p q e])
  qed
qed

lemma scale_up_props:
  assumes "scale_up p q e = (p', q', e')" and "0 < q" and "- 1074 \<le> e"
    and "\<bar>p\<bar> < 9007199254740992 * q"
  shows "q' = q \<and> - 1074 \<le> e'
     \<and> of_int p' / of_int q * two_to e' = of_int p / of_int q * two_to e
     \<and> \<bar>p'\<bar> < 9007199254740992 * q
     \<and> (4503599627370496 * q \<le> \<bar>p'\<bar> \<or> e' = - 1074)"
  using assms
proof (induction p q e rule: scale_up.induct)
  case (1 p q e)
  show ?case
  proof (cases "\<bar>p\<bar> < 4503599627370496 * q \<and> - 1074 < e")
    case True
    with "1.prems" have call: "scale_up (2 * p) q (e - 1) = (p', q', e')"
      by (simp add: scale_up.simps [of p q e])
    have "\<bar>2 * p\<bar> = 2 * \<bar>p\<bar>"
      by (simp add: abs_mult)
    with True have "\<bar>2 * p\<bar> < 9007199254740992 * q" "- 1074 \<le> e - 1"
      by linarith+
    with "1.IH" True "1.prems"(2) call
    have IH: "q' = q \<and> - 1074 \<le> e'
     \<and> of_int p' / of_int q * two_to e' = of_int (2 * p) / of_int q * two_to (e - 1)
     \<and> \<bar>p'\<bar> < 9007199254740992 * q
     \<and> (4503599627370496 * q \<le> \<bar>p'\<bar> \<or> e' = - 1074)"
      by simp
    have "two_to e = 2 * two_to (e - 1)"
      using two_to_succ [of "e - 1"] by simp
    then have eq: "of_int (2 * p) / of_int q * two_to (e - 1) = of_int p / of_int q * two_to e"
      by simp
    from IH have i1: "q' = q" and i2: "- 1074 \<le> e'"
      and i3: "of_int p' / of_int q * two_to e' = of_int (2 * p) / of_int q * two_to (e - 1)"
      and i4: "\<bar>p'\<bar> < 9007199254740992 * q"
      and i5: "4503599627370496 * q \<le> \<bar>p'\<bar> \<or> e' = - 1074"
      by blast+
    from i3 eq have "of_int p' / of_int q * two_to e' = of_int p / of_int q * two_to e"
      by (rule trans)
    with i1 i2 i4 i5 show ?thesis by blast
  next
    case False
    with "1.prems" show ?thesis
      by (auto simp: scale_up.simps [of p q e])
  qed
qed

lemma abs_quotient_less:
  fixes p q :: int
  assumes "0 < q"
  shows "\<bar>of_int p / of_int q :: rat\<bar> < of_int c \<longleftrightarrow> \<bar>p\<bar> < c * q"
proof -
  have "\<bar>of_int p / of_int q :: rat\<bar> = of_int \<bar>p\<bar> / of_int q"
    using assms by simp
  also have "\<dots> < of_int c \<longleftrightarrow> (of_int \<bar>p\<bar> :: rat) < of_int (c * q)"
    using assms by (simp add: divide_less_eq)
  finally show ?thesis by (simp only: of_int_less_iff)
qed

lemma abs_quotient_ge:
  fixes p q :: int
  assumes "0 < q"
  shows "of_int c \<le> \<bar>of_int p / of_int q :: rat\<bar> \<longleftrightarrow> c * q \<le> \<bar>p\<bar>"
  using abs_quotient_less [OF assms, of p c] by (simp add: not_less [symmetric])

lemma round_double_normal_ex:
  assumes "x \<noteq> 0"
  shows "\<exists>m e. normal_form x m e \<and> round_double x = of_int (nearest_even m) * two_to e"
proof -
  obtain p q where pq: "quotient_of x = (p, q)"
    by (cases "quotient_of x")
  then have q: "0 < q" and x: "x = of_int p / of_int q"
    by (simp_all add: quotient_of_denom_pos quotient_of_div)
  obtain p1 q1 e1 where down: "scale_down p q 0 = (p1, q1, e1)"
    by (metis prod_cases3)
  from scale_down_props [OF down q]
  have p1: "p1 = p" and q1: "0 < q1"
    and v1: "of_int p / of_int q1 * two_to e1 = of_int p / of_int q * two_to 0"
    and b1: "\<bar>p\<bar> < 9007199254740992 * q1" and e1: "0 \<le> e1"
    by auto
  obtain p2 q2 e2 where up: "scale_up p q1 e1 = (p2, q2, e2)"
    by (metis prod_cases3)
  have "- 1074 \<le> e1" using e1 by simp
  from scale_up_props [OF up q1 this b1]
  have q2: "q2 = q1" and e2: "- 1074 \<le> e2"
    and v2: "of_int p2 / of_int q1 * two_to e2 = of_int p / of_int q1 * two_to e1"
    and b2: "\<bar>p2\<bar> < 9007199254740992 * q1"
    and n2: "4503599627370496 * q1 \<le> \<bar>p2\<bar> \<or> e2 = - 1074"
    by auto
  let ?m = "of_int p2 / of_int q1 :: rat"
  have "x = ?m * two_to e2"
    using v1 v2 x by (simp add: two_to_zero)
  moreover have "\<bar>?m\<bar> < 9007199254740992"
    using abs_quotient_less [OF q1, of p2 9007199254740992] b2 by simp
  moreover have "4503599627370496 \<le> \<bar>?m\<bar> \<or> e2 = - 1074"
    using abs_quotient_ge [OF q1, of 4503599627370496 p2] n2 by auto
  ultimately have nf: "normal_form x ?m e2"
    using e2 by (simp add: normal_form_def)
  have "round_double x = of_int (round_half_even p2 q2) * two_to e2"
    using assms pq down up p1 by (simp add: round_double_def)
  then have "round_double x = of_int (nearest_even ?m) * two_to e2"
    using q1 q2 by (simp add: round_half_even_nearest)
  with nf show ?thesis by blast
qed

lemma normal_form_exponent_le:
  assumes "normal_form x m e" and "normal_form y m' e'" and "\<bar>x\<bar> \<le> \<bar>y\<bar>"
  shows "e \<le> e'"
proof (rule ccontr)
  assume "\<not> e \<le> e'"
  then have lt: "e' + 1 \<le> e" by simp
  from assms(2) have "- 1074 \<le> e'" by (simp add: normal_form_def)
  with lt have "e \<noteq> - 1074" by simp
  with assms(1) have m: "4503599627370496 \<le> \<bar>m\<bar>" and x: "x = m * two_to e"
    by (simp_all add: normal_form_def)
  from assms(2) have m': "\<bar>m'\<bar> < 9007199254740992" and y: "y = m' * two_to e'"
    by (simp_all add: normal_form_def)
  have "\<bar>y\<bar> = \<bar>m'\<bar> * two_to e'"
    using y two_to_pos [of e'] by (simp add: abs_mult)
  also have "\<dots> < 9007199254740992 * two_to e'"
    using m' two_to_pos [of e'] by simp
  also have "\<dots> = 4503599627370496 * two_to (e' + 1)"
    by (simp add: two_to_succ)
  also have "\<dots> \<le> 4503599627370496 * two_to e"
    using two_to_mono [OF lt] by simp
  also have "\<dots> \<le> \<bar>m\<bar> * two_to e"
    using m two_to_pos [of e] by simp
  also have "\<dots> = \<bar>x\<bar>"
    using x two_to_pos [of e] by (simp add: abs_mult)
  finally show False using assms(3) by simp
qed

lemma normal_form_unique:
  assumes "normal_form x m e" and "normal_form x m' e'"
  shows "e = e' \<and> m = m'"
proof -
  have "e \<le> e'" "e' \<le> e"
    using assms by (auto intro: normal_form_exponent_le)
  then have e: "e = e'" by simp
  from assms have "m * two_to e = m' * two_to e'"
    by (simp add: normal_form_def)
  with e two_to_pos [of e] have "m = m'" by simp
  with e show ?thesis by simp
qed

lemma round_double_normal:
  assumes "normal_form x m e" and "x \<noteq> 0"
  shows "round_double x = of_int (nearest_even m) * two_to e"
proof -
  from round_double_normal_ex [OF assms(2)]
  obtain m' e' where "normal_form x m' e'"
    and r: "round_double x = of_int (nearest_even m') * two_to e'"
    by blast
  with assms(1) have "e' = e \<and> m' = m"
    by (simp add: normal_form_unique)
  with r show ?thesis by simp
qed

lemma round_double_zero: "round_double 0 = 0"
  by (simp add: round_double_def)

lemma normal_form_sign:
  assumes "normal_form x m e"
  shows "0 < x \<longleftrightarrow> 0 < m" and "x < 0 \<longleftrightarrow> m < 0"
  using assms two_to_pos [of e]
  by (simp_all add: normal_form_def zero_less_mult_iff mult_less_0_iff)

lemma round_double_mono_pos:
  assumes "0 < x" and "x \<le> y"
  shows "round_double x \<le> round_double y"
proof -
  from assms have x0: "x \<noteq> 0" and y0: "y \<noteq> 0" by simp_all
  from round_double_normal_ex [OF x0] obtain m e
    where nx: "normal_form x m e" and rx: "round_double x = of_int (nearest_even m) * two_to e"
    by blast
  from round_double_normal_ex [OF y0] obtain m' e'
    where ny: "normal_form y m' e'" and ry: "round_double y = of_int (nearest_even m') * two_to e'"
    by blast
  have le: "e \<le> e'"
    using nx ny assms by (intro normal_form_exponent_le [of x m e y m' e']) simp_all
  have mpos: "0 < m" "0 < m'"
    using normal_form_sign(1) [OF nx] normal_form_sign(1) [OF ny] assms by simp_all
  show ?thesis
  proof (cases "e = e'")
    case True
    have "m * two_to e \<le> m' * two_to e"
      using nx ny assms(2) True by (simp add: normal_form_def)
    then have "m \<le> m'"
      using two_to_pos [of e] by simp
    then have "nearest_even m \<le> nearest_even m'"
      by (rule nearest_even_mono)
    then have "(of_int (nearest_even m) :: rat) \<le> of_int (nearest_even m')"
      by simp
    then show ?thesis
      using two_to_pos [of e] True by (simp add: rx ry)
  next
    case False
    with le have lt: "e + 1 \<le> e'" by simp
    from nx have "- 1074 \<le> e" by (simp add: normal_form_def)
    with lt have "e' \<noteq> - 1074" by simp
    with ny mpos(2) have "of_int 4503599627370496 \<le> m'"
      by (simp add: normal_form_def)
    then have low: "(4503599627370496 :: rat) \<le> of_int (nearest_even m')"
      using nearest_even_ge [of 4503599627370496 m'] by simp
    from nx mpos(1) have "m \<le> of_int 9007199254740992"
      by (simp add: normal_form_def)
    then have "nearest_even m \<le> 9007199254740992"
      by (rule nearest_even_le)
    then have up: "(of_int (nearest_even m) :: rat) \<le> 9007199254740992"
      by simp
    have "round_double x \<le> 9007199254740992 * two_to e"
      using up two_to_pos [of e] by (simp add: rx)
    also have "\<dots> = 4503599627370496 * two_to (e + 1)"
      by (simp add: two_to_succ)
    also have "\<dots> \<le> 4503599627370496 * two_to e'"
      using two_to_mono [OF lt] by simp
    also have "\<dots> \<le> round_double y"
      using low two_to_pos [of e'] by (simp add: ry)
    finally show ?thesis .
  qed
qed

lemma round_double_mono_neg:
  assumes "y < 0" and "x \<le> y"
  shows "round_double x \<le> round_double y"
proof -
  from assms have x0: "x \<noteq> 0" and y0: "y \<noteq> 0" by simp_all
  from round_double_normal_ex [OF x0] obtain m e
    where nx: "normal_form x m e" and rx: "round_double x = of_int (nearest_even m) * two_to e"
    by blast
  from round_double_normal_ex [OF y0] obtain m' e'
    where ny: "normal_form y m' e'" and ry: "round_double y = of_int (nearest_even m') * two_to e'"
    by blast
  have le: "e' \<le> e"
    using nx ny assms by (intro normal_form_exponent_le [of y m' e' x m e]) simp_all
  have mneg: "m < 0" "m' < 0"
    using normal_form_sign(2) [OF nx] normal_form_sign(2) [OF ny] assms by simp_all
  show ?thesis
  proof (cases "e = e'")
    case True
    have "m * two_to e \<le> m' * two_to e"
      using nx ny assms(2) True by (simp add: normal_form_def)
    then have "m \<le> m'"
      using two_to_pos [of e] by simp
    then have "nearest_even m \<le> nearest_even m'"
      by (rule nearest_even_mono)
    then have "(of_int (nearest_even m) :: rat) \<le> of_int (nearest_even m')"
      by simp
    then show ?thesis
      using two_to_pos [of e] True by (simp add: rx ry)
  next
    case False
    with le have lt: "e' + 1 \<le> e" by simp
    from ny have "- 1074 \<le> e'" by (simp add: normal_form_def)
    with lt have "e \<noteq> - 1074" by simp
    with nx mneg(1) have "m \<le> of_int (- 4503599627370496)"
      by (simp add: normal_form_def)
    then have "nearest_even m \<le> - 4503599627370496"
      by (rule nearest_even_le)
    then have up: "(of_int (nearest_even m) :: rat) \<le> - 4503599627370496"
      by linarith
    from ny mneg(2) have "of_int (- 9007199254740992) \<le> m'"
      by (simp add: normal_form_def)
    then have "- 9007199254740992 \<le> nearest_even m'"
      by (rule nearest_even_ge)
    then have low: "(- 9007199254740992 :: rat) \<le> of_int (nearest_even m')"
      by linarith
    have "round_double x \<le> - 4503599627370496 * two_to e"
      using mult_right_mono [OF up, of "two_to e"] two_to_pos [of e] by (simp add: rx)
    also have "\<dots> \<le> - 4503599627370496 * two_to (e' + 1)"
      using two_to_mono [OF lt] by simp
    also have "\<dots> = - 9007199254740992 * two_to e'"
      by (simp add: two_to_succ)
    also have "\<dots> \<le> round_double y"
      using mult_right_mono [OF low, of "two_to e'"] two_to_pos [of e'] by (simp add: ry)
    finally show ?thesis .
  qed
qed

lemma round_double_nonneg: "0 \<le> x \<Longrightarrow> 0 \<le> round_double x"
proof (cases "x = 0")
  case True
  then show ?thesis by (simp add: round_double_zero)
next
  case False
  assume "0 \<le> x"
  with False have pos: "0 < x" by simp
  from round_double_normal_ex [OF False] obtain m e
    where nx: "normal_form x m e" and rx: "round_double x = of_int (nearest_even m) * two_to e"
    by blast
  from normal_form_sign(1) [OF nx] pos have "of_int 0 \<le> m" by simp
  then have "0 \<le> nearest_even m" by (rule nearest_even_ge)
  then show ?thesis
    using two_to_pos [of e] by (simp add: rx)
qed

lemma round_double_nonpos: "x \<le> 0 \<Longrightarrow> round_double x \<le> 0"
proof (cases "x = 0")
  case True
  then show ?thesis by (simp add: round_double_zero)
next
  case False
  assume "x \<le> 0"
  with False have neg: "x < 0" by simp
  from round_double_normal_ex [OF False] obtain m e
    where nx: "normal_form x m e" and rx: "round_double x = of_int (nearest_even m) * two_to e"
    by blast
  from normal_form_sign(2) [OF nx] neg have "m \<le> of_int 0" by simp
  then have "nearest_even m \<le> 0" by (rule nearest_even_le)
  then show ?thesis
    using two_to_pos [of e] by (simp add: rx mult_le_0_iff)
qed

lemma round_double_mono:
  assumes "x \<le> y"
  shows "round_double x \<le> round_double y"
proof -
  consider "0 < x" | "y < 0" | "x \<le> 0" "0 \<le> y"
    by linarith
  then show ?thesis
  proof cases
    case 1
    then show ?thesis using assms by (rule round_double_mono_pos)
  next
    case 2
    then show ?thesis using assms by (rule round_double_mono_neg)
  next
    case 3
    then have "round_double x \<le> 0" "0 \<le> round_double y"
      by (simp_all add: round_double_nonpos round_double_nonneg)
    then show ?thesis by simp
  qed
qed

lemma round_double_idem: "round_double (round_double z) = round_double z"
proof (cases "z = 0")
  case True
  then show ?thesis by (simp add: round_double_zero)
next
  case False
  from round_double_normal_ex [OF False] obtain m e
    where nz: "normal_form z m e" and rz: "round_double z = of_int (nearest_even m) * two_to e"
    by blast
  let ?n = "nearest_even m"
  from nz have m: "\<bar>m\<bar> < 9007199254740992" and e: "- 1074 \<le> e"
    and big: "4503599627370496 \<le> \<bar>m\<bar> \<or> e = - 1074"
    by (simp_all add: normal_form_def)
  have "m \<le> of_int 9007199254740992" "of_int (- 9007199254740992) \<le> m"
    using m by simp_all
  then have nb: "?n \<le> 9007199254740992" "- 9007199254740992 \<le> ?n"
    by (simp_all add: nearest_even_le nearest_even_ge)
  consider "?n = 0" | "?n = 9007199254740992" | "?n = - 9007199254740992"
    | "?n \<noteq> 0" "\<bar>?n\<bar> < 9007199254740992"
    using nb by linarith
  then show ?thesis
  proof cases
    case 1
    then show ?thesis by (simp add: rz round_double_zero)
  next
    case 2
    then have d: "round_double z = 4503599627370496 * two_to (e + 1)"
      by (simp add: rz two_to_succ)
    have "normal_form (round_double z) (of_int 4503599627370496) (e + 1)"
      using e by (simp add: normal_form_def d)
    moreover have "round_double z \<noteq> 0"
      using two_to_pos [of "e + 1"] by (simp add: d)
    ultimately have "round_double (round_double z)
                       = of_int (nearest_even (of_int 4503599627370496)) * two_to (e + 1)"
      by (rule round_double_normal)
    then show ?thesis
      by (simp only: nearest_even_of_int) (simp add: d)
  next
    case 3
    then have d: "round_double z = - 4503599627370496 * two_to (e + 1)"
      by (simp add: rz two_to_succ)
    have "normal_form (round_double z) (of_int (- 4503599627370496)) (e + 1)"
      using e by (simp add: normal_form_def d)
    moreover have "round_double z \<noteq> 0"
      using two_to_pos [of "e + 1"] by (simp add: d)
    ultimately have "round_double (round_double z)
                       = of_int (nearest_even (of_int (- 4503599627370496))) * two_to (e + 1)"
      by (rule round_double_normal)
    then show ?thesis
      by (simp only: nearest_even_of_int) (simp add: d)
  next
    case 4
    have "4503599627370496 \<le> \<bar>?n\<bar> \<or> e = - 1074"
    proof (cases "e = - 1074")
      case True
      then show ?thesis by simp
    next
      case False
      with big have b: "4503599627370496 \<le> \<bar>m\<bar>" by simp
      show ?thesis
      proof (cases "0 \<le> m")
        case True
        with b have "of_int 4503599627370496 \<le> m" by simp
        then have "4503599627370496 \<le> ?n" by (rule nearest_even_ge)
        then show ?thesis by simp
      next
        case False
        with b have "m \<le> of_int (- 4503599627370496)" by simp
        then have "?n \<le> - 4503599627370496" by (rule nearest_even_le)
        then show ?thesis by simp
      qed
    qed
    then have "(of_int 4503599627370496 :: rat) \<le> of_int \<bar>?n\<bar> \<or> e = - 1074"
      by (simp only: of_int_le_iff)
    then have b1: "(4503599627370496 :: rat) \<le> \<bar>of_int ?n\<bar> \<or> e = - 1074"
      by simp
    from 4(2) have "(of_int \<bar>?n\<bar> :: rat) < of_int 9007199254740992"
      by (simp only: of_int_less_iff)
    then have b2: "\<bar>of_int ?n :: rat\<bar> < 9007199254740992"
      by simp
    from b1 b2 e have "normal_form (round_double z) (of_int ?n) e"
      by (simp add: normal_form_def rz)
    moreover have "round_double z \<noteq> 0"
      using 4(1) two_to_pos [of e] by (simp add: rz)
    ultimately have "round_double (round_double z) = of_int (nearest_even (of_int ?n)) * two_to e"
      by (rule round_double_normal)
    then show ?thesis
      by (simp only: nearest_even_of_int rz)
  qed
qed

lemma plus_double_ge:
  assumes "0 \<le> c"
  shows "round_double z \<le> plus_double (round_double z) c"
proof -
  have "round_double (round_double z) \<le> round_double (round_double z + c)"
    using assms by (intro round_double_mono) simp
  then show ?thesis
    by (simp add: plus_double_def round_double_idem)
qed

subsection \<open>Sums of doubles\<close>

lemma two_to_pred: "two_to (e - 1) * 2 = two_to e"
proof (cases "0 < e")
  case True
  then have "nat e = Suc (nat (e - 1))" by simp
  with True show ?thesis by (simp add: two_to_def)
next
  case False
  then have "nat (- (e - 1)) = Suc (nat (- e))" by simp
  with False show ?thesis by (simp add: two_to_def)
qed

lemma scale_up_value:
  "scale_up p q e = (p', q', e') \<Longrightarrow> q' = q \<and> of_int p' * two_to e' = of_int p * two_to e"
proof (induction p q e rule: scale_up.induct)
  case (1 p q e)
  show ?case
  proof (cases "\<bar>p\<bar> < 4503599627370496 * q \<and> - 1074 < e")
    case True
    with "1.prems" have "scale_up (2 * p) q (e - 1) = (p', q', e')"
      by (simp add: scale_up.simps [of p q e])
    with "1.IH" True have "q' = q" and "of_int p' * two_to e' = of_int (2 * p) * two_to (e - 1)"
      by simp_all
    moreover have "of_int (2 * p) * two_to (e - 1) = of_int p * two_to e"
      using two_to_pred [of e] by (simp add: mult.assoc mult.commute)
    ultimately show ?thesis by simp
  next
    case False
    with "1.prems" show ?thesis
      by (simp add: scale_up.simps [of p q e])
  qed
qed

lemma round_half_even_one: "round_half_even p 1 = p"
  by (simp add: round_half_even_def)

lemma round_double_of_int:
  assumes "\<bar>k\<bar> < 9007199254740992"
  shows "round_double (of_int k) = of_int k"
proof (cases "k = 0")
  case True
  then show ?thesis by (simp add: round_double_def)
next
  case False
  have down: "scale_down k 1 0 = (k, 1, 0)"
    using assms by (simp add: scale_down.simps [of k 1 0])
  obtain p' q' e' where up: "scale_up k 1 0 = (p', q', e')"
    by (metis prod_cases3)
  from scale_up_value [OF up] have "q' = 1" and "of_int p' * two_to e' = of_int k"
    by (simp_all add: two_to_def)
  with False down up show ?thesis
    by (simp add: round_double_def round_half_even_one)
qed

lemma plus_double_of_int:
  assumes "\<bar>a + b\<bar> < 9007199254740992"
  shows "plus_double (of_int a) (of_int b) = of_int (a + b)"
  using round_double_of_int [OF assms] by (simp add: plus_double_def)

text \<open>
  Claim C3, as amended. For every temple and every non-empty normalized query that occurs
  in the temple's combined text, the score is the \<^verbatim>\<open>significanceScore\<close> plus 25 if the
  query occurs in the case-folded name, plus 15 if it occurs in the case-folded city, plus
  10 if it occurs in at least one single case-folded feature: three sums of doubles, taken
  from left to right, the three bonuses being independent. A query that occurs in the
  case-folded name scores at least the \<^verbatim>\<open>significanceScore\<close> plus 25, as the language
  adds the two (the name is part of the combined text, and rounding is monotone). Where
  the \<^verbatim>\<open>significanceScore\<close> is an integer \<open>k\<close> with \<open>-2\<^sup>5\<^sup>3 < k\<close> and \<open>k + 50 < 2\<^sup>5\<^sup>3\<close>, the
  sums are exact: the score is the \<^verbatim>\<open>significanceScore\<close> plus the bonuses, and all three
  bonuses together give plus 50.
\<close>

theorem hit_adds_bonuses:
  assumes "needle \<noteq> []"
  shows "(String_includes (haystacks t) needle \<longrightarrow>
            scoreTemple t needle =
              plus_double
                (plus_double
                   (plus_double (significanceScore t)
                      (if String_includes (toLowerCase (name t)) needle then 25 else 0))
                   (if String_includes (toLowerCase (city t)) needle then 15 else 0))
                (if \<exists>f \<in> set (features t). String_includes (toLowerCase f) needle
                 then 10 else 0))
     \<and> (String_includes (toLowerCase (name t)) needle
          \<longrightarrow> plus_double (significanceScore t) 25 \<le> scoreTemple t needle)
     \<and> (significanceScore t = of_int k \<and> - 9007199254740992 < k \<and> k + 50 < 9007199254740992
          \<longrightarrow>
          (String_includes (haystacks t) needle \<longrightarrow>
             scoreTemple t needle =
               significanceScore t
               + (if String_includes (toLowerCase (name t)) needle then 25 else 0)
               + (if String_includes (toLowerCase (city t)) needle then 15 else 0)
               + (if \<exists>f \<in> set (features t). String_includes (toLowerCase f) needle
                  then 10 else 0))
          \<and> (String_includes (toLowerCase (name t)) needle
               \<and> String_includes (toLowerCase (city t)) needle
               \<and> (\<exists>f \<in> set (features t). String_includes (toLowerCase f) needle)
               \<longrightarrow> scoreTemple t needle = significanceScore t + 50)
          \<and> (String_includes (toLowerCase (name t)) needle
               \<longrightarrow> significanceScore t + 25 \<le> scoreTemple t needle))"
proof -
  let ?n = "if String_includes (toLowerCase (name t)) needle then 25 else (0::int)"
  let ?c = "if String_includes (toLowerCase (city t)) needle then 15 else (0::int)"
  let ?f = "if \<exists>f \<in> set (features t). String_includes (toLowerCase f) needle
            then 10 else (0::int)"
  have sums: "scoreTemple t needle =
      plus_double (plus_double (plus_double (significanceScore t) (of_int ?n)) (of_int ?c))
        (of_int ?f)"
    if "String_includes (haystacks t) needle"
    using assms that by (simp add: scoreTemple_def Let_def list_ex_iff)
  have exact: "scoreTemple t needle = significanceScore t + of_int ?n + of_int ?c + of_int ?f"
    if hit: "String_includes (haystacks t) needle"
      and k: "significanceScore t = of_int k" "- 9007199254740992 < k" "k + 50 < 9007199254740992"
  proof -
    have "0 \<le> ?n" "?n \<le> 25" "0 \<le> ?c" "?c \<le> 15" "0 \<le> ?f" "?f \<le> 10"
      by simp_all
    with k(2,3) have b: "\<bar>k + ?n\<bar> < 9007199254740992" "\<bar>k + ?n + ?c\<bar> < 9007199254740992"
      "\<bar>k + ?n + ?c + ?f\<bar> < 9007199254740992"
      by linarith+
    have "plus_double (of_int k) (of_int ?n) = of_int (k + ?n)"
      using b(1) by (rule plus_double_of_int)
    moreover have "plus_double (of_int (k + ?n)) (of_int ?c) = of_int (k + ?n + ?c)"
      using b(2) by (rule plus_double_of_int)
    moreover have "plus_double (of_int (k + ?n + ?c)) (of_int ?f) = of_int (k + ?n + ?c + ?f)"
      using b(3) by (rule plus_double_of_int)
    ultimately have "scoreTemple t needle = of_int (k + ?n + ?c + ?f)"
      using sums [OF hit] k(1) by (simp only:)
    then show ?thesis
      using k(1) by (simp only: of_int_add)
  qed
  have first: "String_includes (haystacks t) needle \<longrightarrow>
            scoreTemple t needle =
              plus_double
                (plus_double
                   (plus_double (significanceScore t)
                      (if String_includes (toLowerCase (name t)) needle then 25 else 0))
                   (if String_includes (toLowerCase (city t)) needle then 15 else 0))
                (if \<exists>f \<in> set (features t). String_includes (toLowerCase f) needle
                 then 10 else 0)"
    using sums by (auto split: if_splits)
  have second: "(String_includes (haystacks t) needle \<longrightarrow>
             scoreTemple t needle =
               significanceScore t
               + (if String_includes (toLowerCase (name t)) needle then 25 else 0)
               + (if String_includes (toLowerCase (city t)) needle then 15 else 0)
               + (if \<exists>f \<in> set (features t). String_includes (toLowerCase f) needle
                  then 10 else 0))
          \<and> (String_includes (toLowerCase (name t)) needle
               \<and> String_includes (toLowerCase (city t)) needle
               \<and> (\<exists>f \<in> set (features t). String_includes (toLowerCase f) needle)
               \<longrightarrow> scoreTemple t needle = significanceScore t + 50)
          \<and> (String_includes (toLowerCase (name t)) needle
               \<longrightarrow> significanceScore t + 25 \<le> scoreTemple t needle)"
    if k: "significanceScore t = of_int k" "- 9007199254740992 < k" "k + 50 < 9007199254740992"
  proof (intro conjI impI)
    assume hit: "String_includes (haystacks t) needle"
    from exact [OF hit k] show "scoreTemple t needle =
               significanceScore t
               + (if String_includes (toLowerCase (name t)) needle then 25 else 0)
               + (if String_includes (toLowerCase (city t)) needle then 15 else 0)
               + (if \<exists>f \<in> set (features t). String_includes (toLowerCase f) needle
                  then 10 else 0)"
      by (auto split: if_splits)
  next
    assume all3: "String_includes (toLowerCase (name t)) needle
               \<and> String_includes (toLowerCase (city t)) needle
               \<and> (\<exists>f \<in> set (features t). String_includes (toLowerCase f) needle)"
    then have "String_includes (haystacks t) needle"
      by (simp add: name_in_haystacks)
    from exact [OF this k] all3 show "scoreTemple t needle = significanceScore t + 50"
      by simp
  next
    assume nm: "String_includes (toLowerCase (name t)) needle"
    then have "String_includes (haystacks t) needle"
      by (rule name_in_haystacks)
    from exact [OF this k] nm show "significanceScore t + 25 \<le> scoreTemple t needle"
      by (auto split: if_splits)
  qed
  have bound: "plus_double (significanceScore t) 25 \<le> scoreTemple t needle"
    if nm: "String_includes (toLowerCase (name t)) needle"
  proof -
    let ?d1 = "plus_double (significanceScore t) 25"
    let ?d2 = "plus_double ?d1 (of_int ?c)"
    have "String_includes (haystacks t) needle"
      using nm by (rule name_in_haystacks)
    from sums [OF this] nm have sc: "scoreTemple t needle = plus_double ?d2 (of_int ?f)"
      by simp
    have c0: "(0::rat) \<le> of_int ?c" and f0: "(0::rat) \<le> of_int ?f"
      by simp_all
    have "round_double (significanceScore t + 25)
            \<le> plus_double (round_double (significanceScore t + 25)) (of_int ?c)"
      using c0 by (rule plus_double_ge)
    then have s1: "?d1 \<le> ?d2"
      by (simp only: plus_double_def [of "significanceScore t" 25])
    have "round_double (?d1 + of_int ?c)
            \<le> plus_double (round_double (?d1 + of_int ?c)) (of_int ?f)"
      using f0 by (rule plus_double_ge)
    then have s2: "?d2 \<le> plus_double ?d2 (of_int ?f)"
      by (simp only: plus_double_def [of ?d1 "of_int ?c"])
    from s1 s2 sc show ?thesis by simp
  qed
  from first bound second show ?thesis by blast
qed

theorem hit_adds_bonuses_witness:
  "''r'' \<noteq> [] \<and> String_includes (haystacks angkorWat) ''r''
   \<and> String_includes (toLowerCase (name angkorWat)) ''r''
   \<and> String_includes (toLowerCase (city angkorWat)) ''r''
   \<and> (\<exists>f \<in> set (features angkorWat). String_includes (toLowerCase f) ''r'')
   \<and> significanceScore angkorWat = of_int 95
   \<and> scoreTemple angkorWat ''r'' = 95 + 25 + 15 + 10
   \<and> scoreTemple angkorWat ''r'' = 95 + 50
   \<and> plus_double (significanceScore angkorWat) 25 \<le> scoreTemple angkorWat ''r''
   \<and> (95 :: rat) + 25 \<le> scoreTemple angkorWat ''r''"
proof -
  have h: "''r'' \<noteq> []" by simp
  have a: "String_includes (haystacks angkorWat) ''r''" by code_simp
  have b: "String_includes (toLowerCase (name angkorWat)) ''r''" by code_simp
  have c: "String_includes (toLowerCase (city angkorWat)) ''r''" by code_simp
  have d: "\<exists>f \<in> set (features angkorWat). String_includes (toLowerCase f) ''r''" by code_simp
  have s: "significanceScore angkorWat = of_int 95" by (simp add: angkorWat_def)
  from hit_adds_bonuses [OF h, of angkorWat 95] a b c d s
  have "scoreTemple angkorWat ''r'' = significanceScore angkorWat + 50"
    and "plus_double (significanceScore angkorWat) 25 \<le> scoreTemple angkorWat ''r''"
    by simp_all
  with h a b c d s show ?thesis by simp
qed

text \<open>
  The claim as stated fails for a score that is no integer: for the double nearest to
  0.01 the three sums give 50.010000000000005, which is neither that double plus 50 as
  the language adds them (50.01) nor the exact sum.
\<close>

theorem hit_adds_bonuses_counterexample:
  "round_double (1 / 100) = 5764607523034235 / 576460752303423488
   \<and> String_includes
       (toLowerCase (name (angkorWat\<lparr>significanceScore := round_double (1 / 100)\<rparr>))) ''r''
   \<and> String_includes
       (toLowerCase (city (angkorWat\<lparr>significanceScore := round_double (1 / 100)\<rparr>))) ''r''
   \<and> (\<exists>f \<in> set (features (angkorWat\<lparr>significanceScore := round_double (1 / 100)\<rparr>)).
         String_includes (toLowerCase f) ''r'')
   \<and> scoreTemple (angkorWat\<lparr>significanceScore := round_double (1 / 100)\<rparr>) ''r''
       = 3519140896324977 / 70368744177664
   \<and> plus_double (round_double (1 / 100)) 50 = 7038281792649953 / 140737488355328
   \<and> scoreTemple (angkorWat\<lparr>significanceScore := round_double (1 / 100)\<rparr>) ''r''
       \<noteq> plus_double (round_double (1 / 100)) 50
   \<and> scoreTemple (angkorWat\<lparr>significanceScore := round_double (1 / 100)\<rparr>) ''r''
       \<noteq> round_double (1 / 100) + 50"
  by code_simp

subsection \<open>Filtering and membership\<close>

text \<open>
  Claim C5. A temple matches a selection if and only if the four conditions hold
  together: for region, tradition and environment the selection is the sentinel or equals
  the temple's value, for the feature the selection is the sentinel or a member of the
  temple's features. Each condition reads the selection of its own dimension only: after
  one selection is changed, the other three conditions are what they were.
\<close>

theorem matchesFilters_conjunctive:
  "(matchesFilters t opts \<longleftrightarrow>
      passes_single (opt_region opts) (region t)
      \<and> passes_single (opt_tradition opts) (tradition t)
      \<and> passes_single (opt_environment opts) (environment t)
      \<and> passes_feature (opt_feature opts) (features t))
   \<and> (matchesFilters t (opts\<lparr>opt_region := r\<rparr>) \<longleftrightarrow>
      passes_single r (region t)
      \<and> passes_single (opt_tradition opts) (tradition t)
      \<and> passes_single (opt_environment opts) (environment t)
      \<and> passes_feature (opt_feature opts) (features t))
   \<and> (matchesFilters t (opts\<lparr>opt_tradition := r\<rparr>) \<longleftrightarrow>
      passes_single (opt_region opts) (region t)
      \<and> passes_single r (tradition t)
      \<and> passes_single (opt_environment opts) (environment t)
      \<and> passes_feature (opt_feature opts) (features t))
   \<and> (matchesFilters t (opts\<lparr>opt_environment := r\<rparr>) \<longleftrightarrow>
      passes_single (opt_region opts) (region t)
      \<and> passes_single (opt_tradition opts) (tradition t)
      \<and> passes_single r (environment t)
      \<and> passes_feature (opt_feature opts) (features t))
   \<and> (matchesFilters t (opts\<lparr>opt_feature := r\<rparr>) \<longleftrightarrow>
      passes_single (opt_region opts) (region t)
      \<and> passes_single (opt_tradition opts) (tradition t)
      \<and> passes_single (opt_environment opts) (environment t)
      \<and> passes_feature r (features t))"
  by (simp add: matchesFilters_def passes_single_def passes_feature_def Let_def)

theorem matchesFilters_conjunctive_witness:
  "matchesFilters angkorWat
     \<lparr>opt_region = ''Southeast Asia'', opt_tradition = ALL_OPTION,
      opt_feature = ''Sunrise Views'', opt_environment = ''Jungle''\<rparr>
   \<and> \<not> matchesFilters borobudur
     \<lparr>opt_region = ''Southeast Asia'', opt_tradition = ALL_OPTION,
      opt_feature = ''Sunrise Views'', opt_environment = ALL_OPTION\<rparr>
   \<and> \<not> passes_feature ''Sunrise Views'' (features borobudur)"
proof -
  have a: "passes_single ''Southeast Asia'' (region angkorWat)"
    by (simp add: passes_single_def angkorWat_def)
  have b: "passes_single ALL_OPTION (tradition t)" for t
    by (simp add: passes_single_def)
  have c: "passes_single ''Jungle'' (environment angkorWat)"
    by (simp add: passes_single_def angkorWat_def)
  have d: "passes_feature ''Sunrise Views'' (features angkorWat)"
    by (simp add: passes_feature_def angkorWat_def)
  have e: "\<not> passes_feature ''Sunrise Views'' (features borobudur)"
    by (simp add: passes_feature_def borobudur_def ALL_OPTION_def)
  from a b c d e
    matchesFilters_conjunctive [of angkorWat
      "\<lparr>opt_region = ''Southeast Asia'', opt_tradition = ALL_OPTION,
        opt_feature = ''Sunrise Views'', opt_environment = ''Jungle''\<rparr>"]
    matchesFilters_conjunctive [of borobudur
      "\<lparr>opt_region = ''Southeast Asia'', opt_tradition = ALL_OPTION,
        opt_feature = ''Sunrise Views'', opt_environment = ALL_OPTION\<rparr>"]
  show ?thesis by simp
qed

lemma selection_searchTerm: "selection (q\<lparr>searchTerm := s\<rparr>) = selection q"
  by (simp add: selection_def)

lemma mset_temples_ranked:
  "mset (map temple (rankedTemples temples q))
     = mset (filter (\<lambda>t. matchesFilters t (selection q)) temples)"
proof -
  have "mset (map temple (rankedTemples temples q)) = mset (map temple (retained temples q))"
    unfolding rankedTemples_def by (simp add: mset_Array_sort)
  then show ?thesis by (simp add: map_temple_retained)
qed

text \<open>
  Claim C7. A temple appears in the ranked list if and only if it is in the catalogue and
  passes the filter for the four selections of the state: the selected region against
  its region, the selected tradition against its tradition, the selected environment
  against its environment, the selected feature against its features. The search term
  does not decide membership: two states that differ in the search term only give the
  same temples, each as often.
\<close>

theorem membership_is_the_filter:
  "(t \<in> temple ` set (rankedTemples temples q) \<longleftrightarrow>
      t \<in> set temples
      \<and> matchesFilters t
          \<lparr>opt_region = selectedRegion q, opt_tradition = selectedTradition q,
           opt_feature = selectedFeature q, opt_environment = selectedEnvironment q\<rparr>)
   \<and> (t \<in> temple ` set (rankedTemples temples q) \<longleftrightarrow>
      t \<in> set temples
      \<and> passes_single (selectedRegion q) (region t)
      \<and> passes_single (selectedTradition q) (tradition t)
      \<and> passes_single (selectedEnvironment q) (environment t)
      \<and> passes_feature (selectedFeature q) (features t))
   \<and> mset (map temple (rankedTemples temples (q\<lparr>searchTerm := s\<rparr>)))
       = mset (map temple (rankedTemples temples q))"
proof -
  have "temple ` set (rankedTemples temples q)
          = set (filter (\<lambda>t. matchesFilters t (selection q)) temples)"
    using mset_temples_ranked [of temples q] by (metis set_map set_mset_mset)
  then have mem: "t \<in> temple ` set (rankedTemples temples q) \<longleftrightarrow>
      t \<in> set temples \<and> matchesFilters t (selection q)"
    by simp
  have cells: "matchesFilters t (selection q) \<longleftrightarrow>
      passes_single (selectedRegion q) (region t)
      \<and> passes_single (selectedTradition q) (tradition t)
      \<and> passes_single (selectedEnvironment q) (environment t)
      \<and> passes_feature (selectedFeature q) (features t)"
    by (simp add: matchesFilters_def selection_def passes_single_def passes_feature_def Let_def)
  have "mset (map temple (rankedTemples temples (q\<lparr>searchTerm := s\<rparr>)))
       = mset (map temple (rankedTemples temples q))"
    by (simp only: mset_temples_ranked selection_searchTerm)
  with mem cells show ?thesis
    by (simp add: selection_def)
qed

text \<open>
  Each of the four selections decides: one temple stays and another goes, for the region,
  the tradition, the environment and the feature in turn.
\<close>

theorem membership_is_the_filter_witness:
  "kinkakuji \<in> temple ` set (rankedTemples [angkorWat, borobudur, kinkakuji]
      ((allQuery ''angkor'' Relevance)\<lparr>selectedRegion := ''East Asia''\<rparr>))
   \<and> angkorWat \<notin> temple ` set (rankedTemples [angkorWat, borobudur, kinkakuji]
      ((allQuery ''angkor'' Relevance)\<lparr>selectedRegion := ''East Asia''\<rparr>))
   \<and> borobudur \<in> temple ` set (rankedTemples [angkorWat, borobudur, kinkakuji]
      ((allQuery ''angkor'' Relevance)\<lparr>selectedTradition := ''Buddhist''\<rparr>))
   \<and> angkorWat \<notin> temple ` set (rankedTemples [angkorWat, borobudur, kinkakuji]
      ((allQuery ''angkor'' Relevance)\<lparr>selectedTradition := ''Buddhist''\<rparr>))
   \<and> borobudur \<in> temple ` set (rankedTemples [angkorWat, borobudur, kinkakuji]
      ((allQuery ''angkor'' Relevance)\<lparr>selectedEnvironment := ''Volcanic''\<rparr>))
   \<and> angkorWat \<notin> temple ` set (rankedTemples [angkorWat, borobudur, kinkakuji]
      ((allQuery ''angkor'' Relevance)\<lparr>selectedEnvironment := ''Volcanic''\<rparr>))
   \<and> angkorWat \<in> temple ` set (rankedTemples [angkorWat, borobudur, kinkakuji]
      ((allQuery ''angkor'' Relevance)\<lparr>selectedFeature := ''Sunrise Views''\<rparr>))
   \<and> borobudur \<notin> temple ` set (rankedTemples [angkorWat, borobudur, kinkakuji]
      ((allQuery ''angkor'' Relevance)\<lparr>selectedFeature := ''Sunrise Views''\<rparr>))"
proof -
  note mem = membership_is_the_filter [THEN conjunct2, THEN conjunct1]
  have r1: "kinkakuji \<in> temple ` set (rankedTemples [angkorWat, borobudur, kinkakuji]
      ((allQuery ''angkor'' Relevance)\<lparr>selectedRegion := ''East Asia''\<rparr>))"
    unfolding mem by code_simp
  have r2: "angkorWat \<notin> temple ` set (rankedTemples [angkorWat, borobudur, kinkakuji]
      ((allQuery ''angkor'' Relevance)\<lparr>selectedRegion := ''East Asia''\<rparr>))"
    unfolding mem by code_simp
  have t1: "borobudur \<in> temple ` set (rankedTemples [angkorWat, borobudur, kinkakuji]
      ((allQuery ''angkor'' Relevance)\<lparr>selectedTradition := ''Buddhist''\<rparr>))"
    unfolding mem by code_simp
  have t2: "angkorWat \<notin> temple ` set (rankedTemples [angkorWat, borobudur, kinkakuji]
      ((allQuery ''angkor'' Relevance)\<lparr>selectedTradition := ''Buddhist''\<rparr>))"
    unfolding mem by code_simp
  have e1: "borobudur \<in> temple ` set (rankedTemples [angkorWat, borobudur, kinkakuji]
      ((allQuery ''angkor'' Relevance)\<lparr>selectedEnvironment := ''Volcanic''\<rparr>))"
    unfolding mem by code_simp
  have e2: "angkorWat \<notin> temple ` set (rankedTemples [angkorWat, borobudur, kinkakuji]
      ((allQuery ''angkor'' Relevance)\<lparr>selectedEnvironment := ''Volcanic''\<rparr>))"
    unfolding mem by code_simp
  have f1: "angkorWat \<in> temple ` set (rankedTemples [angkorWat, borobudur, kinkakuji]
      ((allQuery ''angkor'' Relevance)\<lparr>selectedFeature := ''Sunrise Views''\<rparr>))"
    unfolding mem by code_simp
  have f2: "borobudur \<notin> temple ` set (rankedTemples [angkorWat, borobudur, kinkakuji]
      ((allQuery ''angkor'' Relevance)\<lparr>selectedFeature := ''Sunrise Views''\<rparr>))"
    unfolding mem by code_simp
  from r1 r2 t1 t2 e1 e2 f1 f2 show ?thesis
    by (intro conjI)
qed

subsection \<open>Sorting\<close>

lemma insert_sorted_insort_key:
  fixes key :: "'a \<Rightarrow> 'b::linorder"
  assumes "\<And>y. y \<in> set ys \<Longrightarrow> positive (cmp x y) \<longleftrightarrow> key y < key x"
  shows "insert_sorted cmp x ys = insort_key key x ys"
  using assms by (induction ys) (auto simp: not_le)

lemma Array_sort_sort_key:
  fixes key :: "'a \<Rightarrow> 'b::linorder"
  assumes "\<And>a b. a \<in> set xs \<Longrightarrow> b \<in> set xs \<Longrightarrow> positive (cmp a b) \<longleftrightarrow> key b < key a"
  shows "Array_sort cmp xs = sort_key key xs"
  using assms
proof (induction xs)
  case Nil
  then show ?case by (simp add: Array_sort_def)
next
  case (Cons x xs)
  have IH: "Array_sort cmp xs = sort_key key xs"
    using Cons by simp
  have "Array_sort cmp (x # xs) = insert_sorted cmp x (sort_key key xs)"
    using IH by (simp add: Array_sort_def)
  also have "\<dots> = insort_key key x (sort_key key xs)"
    by (rule insert_sorted_insort_key) (simp add: Cons.prems)
  finally show ?case by simp
qed

lemma ranked_Oldest:
  "sortOrder q = Oldest \<Longrightarrow>
     rankedTemples temples q = sort_key (\<lambda>r. founded (temple r)) (retained temples q)"
  unfolding rankedTemples_def by (rule Array_sort_sort_key) simp

lemma ranked_Newest:
  "sortOrder q = Newest \<Longrightarrow>
     rankedTemples temples q = sort_key (\<lambda>r. - founded (temple r)) (retained temples q)"
  unfolding rankedTemples_def by (rule Array_sort_sort_key) simp

lemma ranked_Relevance:
  "sortOrder q = Relevance \<Longrightarrow>
     rankedTemples temples q = sort_key (\<lambda>r. - score r) (retained temples q)"
  unfolding rankedTemples_def by (rule Array_sort_sort_key) simp

lemma scored_sortOrder: "scored (q\<lparr>sortOrder := order\<rparr>) = scored q"
  by (rule ext) (simp add: scored_def normalizedSearch_def)

lemma retained_sortOrder: "retained temples (q\<lparr>sortOrder := order\<rparr>) = retained temples q"
  by (simp add: retained_def scored_sortOrder selection_def)

lemma map_temple_filter_retained:
  "map temple (filter (\<lambda>r. P (temple r) (score r)) (retained temples q))
     = filter (\<lambda>t. matchesFilters t (selection q) \<and> P t (scoreTemple t (normalizedSearch q)))
         temples"
  by (induction temples) (auto simp: retained_def scored_def)

text \<open>
  Claim C6. Under the \<^verbatim>\<open>relevance\<close> order, for every catalogue and state, the retained
  temples of any one score stand in the ranked list in the order in which they stand in
  the catalogue: the sort is stable, and the catalogue order is the only tie-break. The
  list as a whole descends by score.
\<close>

theorem relevance_sort_is_stable:
  assumes "sortOrder q = Relevance"
  shows "map temple (filter (\<lambda>r. score r = s) (rankedTemples temples q))
           = filter (\<lambda>t. matchesFilters t (selection q)
                          \<and> scoreTemple t (normalizedSearch q) = s) temples
     \<and> sorted (rev (map score (rankedTemples temples q)))"
proof -
  have "filter (\<lambda>r. score r = s) (rankedTemples temples q)
          = filter (\<lambda>r. - score r = - s) (sort_key (\<lambda>r. - score r) (retained temples q))"
    by (simp add: ranked_Relevance [OF assms])
  also have "\<dots> = filter (\<lambda>r. - score r = - s) (retained temples q)"
    by (rule sort_key_stable)
  finally have "map temple (filter (\<lambda>r. score r = s) (rankedTemples temples q))
          = map temple (filter (\<lambda>r. score r = s) (retained temples q))"
    by simp
  then have stable: "map temple (filter (\<lambda>r. score r = s) (rankedTemples temples q))
           = filter (\<lambda>t. matchesFilters t (selection q)
                          \<and> scoreTemple t (normalizedSearch q) = s) temples"
    using map_temple_filter_retained [of "\<lambda>t v. v = s" temples q] by simp
  have "sorted (map (\<lambda>r. - score r) (rankedTemples temples q))"
    by (simp add: ranked_Relevance [OF assms])
  then have "sorted_wrt (\<lambda>a b. score b \<le> score a) (rankedTemples temples q)"
    by (simp add: sorted_wrt_map)
  then have "sorted (rev (map score (rankedTemples temples q)))"
    by (simp add: sorted_wrt_rev sorted_wrt_map flip: rev_map)
  with stable show ?thesis by simp
qed


theorem relevance_sort_is_stable_witness:
  "sortOrder (allQuery ''zzz'' Relevance) = Relevance
   \<and> map temple (filter (\<lambda>r. score r = 8866461766385663 / 140737488355328)
         (rankedTemples [borobudur, angkorWat, borobudur\<lparr>temple_id := ''twin''\<rparr>]
            (allQuery ''zzz'' Relevance)))
       = [borobudur, borobudur\<lparr>temple_id := ''twin''\<rparr>]
   \<and> sorted (rev (map score
         (rankedTemples [borobudur, angkorWat, borobudur\<lparr>temple_id := ''twin''\<rparr>]
            (allQuery ''zzz'' Relevance))))"
proof -
  have h: "sortOrder (allQuery ''zzz'' Relevance) = Relevance"
    by (simp add: allQuery_def)
  have f: "filter (\<lambda>t. matchesFilters t (selection (allQuery ''zzz'' Relevance))
                    \<and> scoreTemple t (normalizedSearch (allQuery ''zzz'' Relevance))
                      = 8866461766385663 / 140737488355328)
             [borobudur, angkorWat, borobudur\<lparr>temple_id := ''twin''\<rparr>]
           = [borobudur, borobudur\<lparr>temple_id := ''twin''\<rparr>]"
    by code_simp
  from relevance_sort_is_stable
         [OF h, of "8866461766385663 / 140737488355328" "[borobudur, angkorWat, borobudur\<lparr>temple_id := ''twin''\<rparr>]"] h f
  show ?thesis by simp
qed

lemma sorted_rev_uminus:
  fixes xs :: "int list"
  shows "sorted (rev (map uminus xs)) \<longleftrightarrow> sorted xs"
  by (simp add: sorted_wrt_rev sorted_wrt_map flip: rev_map)

text \<open>
  Claim C4, as amended. For every catalogue and state in which no two retained temples
  have the same \<^verbatim>\<open>founded\<close> year, the list sorted by \<^verbatim>\<open>oldest\<close>, reversed, is the list
  sorted by \<^verbatim>\<open>newest\<close>. In every case the two hold the same elements, and the same
  sequence of years. (Both sorts are stable, so temples of one year keep their catalogue
  order in both lists; reversing one of them turns that order around.)
\<close>

theorem oldest_reversed_is_newest:
  "(distinct (map founded (filter (\<lambda>t. matchesFilters t (selection q)) temples)) \<longrightarrow>
      rev (rankedTemples temples (q\<lparr>sortOrder := Oldest\<rparr>))
        = rankedTemples temples (q\<lparr>sortOrder := Newest\<rparr>))
   \<and> mset (rev (rankedTemples temples (q\<lparr>sortOrder := Oldest\<rparr>)))
       = mset (rankedTemples temples (q\<lparr>sortOrder := Newest\<rparr>))
   \<and> map (\<lambda>r. founded (temple r)) (rev (rankedTemples temples (q\<lparr>sortOrder := Oldest\<rparr>)))
       = map (\<lambda>r. founded (temple r)) (rankedTemples temples (q\<lparr>sortOrder := Newest\<rparr>))"
proof -
  let ?R = "retained temples q"
  let ?f = "\<lambda>r. founded (temple r)"
  let ?g = "\<lambda>r. - founded (temple r)"
  let ?O = "rankedTemples temples (q\<lparr>sortOrder := Oldest\<rparr>)"
  let ?N = "rankedTemples temples (q\<lparr>sortOrder := Newest\<rparr>)"
  have O: "?O = sort_key ?f ?R"
    using ranked_Oldest [of "q\<lparr>sortOrder := Oldest\<rparr>" temples]
    by (simp add: retained_sortOrder)
  have N: "?N = sort_key ?g ?R"
    using ranked_Newest [of "q\<lparr>sortOrder := Newest\<rparr>" temples]
    by (simp add: retained_sortOrder)
  have ms: "mset (rev ?O) = mset ?N"
    by (simp add: O N)
  have sO: "sorted (map ?g (rev ?O))"
  proof -
    have "map ?g (rev ?O) = rev (map uminus (map ?f ?O))"
      by (simp add: rev_map)
    moreover have "sorted (map ?f ?O)"
      by (simp add: O)
    ultimately show ?thesis
      by (simp only: sorted_rev_uminus)
  qed
  have sN: "sorted (map ?g ?N)"
    by (simp add: N)
  have "mset (map ?g (rev ?O)) = mset (map ?g ?N)"
    by (simp only: mset_map ms)
  from properties_for_sort [OF this sO] sorted_sort_id [OF sN]
  have keys: "map ?g (rev ?O) = map ?g ?N"
    by simp
  have years: "map ?f (rev ?O) = map ?f ?N"
  proof -
    have "map uminus (map ?g (rev ?O)) = map uminus (map ?g ?N)"
      using keys by simp
    then show ?thesis by (simp add: comp_def)
  qed
  have eq: "rev ?O = ?N"
    if d: "distinct (map founded (filter (\<lambda>t. matchesFilters t (selection q)) temples))"
  proof -
    have "map ?f ?R = map founded (map temple ?R)"
      by simp
    then have "map ?f ?R = map founded (filter (\<lambda>t. matchesFilters t (selection q)) temples)"
      by (simp only: map_temple_retained)
    with d have dR: "distinct (map ?f ?R)" by simp
    have "mset (map ?f ?N) = mset (map ?f ?R)"
      by (simp add: N)
    with dR have dN: "distinct (map ?f ?N)"
      using mset_eq_imp_distinct_iff by blast
    then have "inj_on ?f (set ?N)"
      by (simp add: distinct_map)
    moreover have "set (rev ?O) = set ?N"
      using ms by (rule mset_eq_setD)
    ultimately have "inj_on ?f (set (rev ?O) \<union> set ?N)"
      by simp
    from inj_on_map_eq_map [OF this] years show ?thesis
      by simp
  qed
  from eq ms years show ?thesis by blast
qed


theorem oldest_reversed_is_newest_witness:
  "distinct (map founded
      (filter (\<lambda>t. matchesFilters t (selection (allQuery ''wat'' Relevance)))
         [angkorWat, borobudur]))
   \<and> rev (rankedTemples [angkorWat, borobudur] ((allQuery ''wat'' Relevance)\<lparr>sortOrder := Oldest\<rparr>))
       = rankedTemples [angkorWat, borobudur] ((allQuery ''wat'' Relevance)\<lparr>sortOrder := Newest\<rparr>)
   \<and> map temple
         (rankedTemples [angkorWat, borobudur] ((allQuery ''wat'' Relevance)\<lparr>sortOrder := Newest\<rparr>))
       = [angkorWat, borobudur]"
proof -
  have d: "distinct (map founded
      (filter (\<lambda>t. matchesFilters t (selection (allQuery ''wat'' Relevance)))
         [angkorWat, borobudur]))"
    by code_simp
  have n: "map temple
         (rankedTemples [angkorWat, borobudur] ((allQuery ''wat'' Relevance)\<lparr>sortOrder := Newest\<rparr>))
       = [angkorWat, borobudur]"
    by code_simp
  from oldest_reversed_is_newest [of "allQuery ''wat'' Relevance" "[angkorWat, borobudur]"] d n
  show ?thesis by simp
qed

text \<open>
  The claim as stated fails where two retained temples have the same year.
\<close>

theorem oldest_reversed_is_newest_counterexample:
  "map (\<lambda>r. temple_id (temple r))
     (rev (rankedTemples [angkorWat, borobudur\<lparr>founded := 1113\<rparr>] (allQuery [] Oldest)))
     = [''borobudur'', ''angkor-wat'']
   \<and> map (\<lambda>r. temple_id (temple r))
       (rankedTemples [angkorWat, borobudur\<lparr>founded := 1113\<rparr>] (allQuery [] Newest))
     = [''angkor-wat'', ''borobudur'']
   \<and> rev (rankedTemples [angkorWat, borobudur\<lparr>founded := 1113\<rparr>] (allQuery [] Oldest))
     \<noteq> rankedTemples [angkorWat, borobudur\<lparr>founded := 1113\<rparr>] (allQuery [] Newest)"
  by code_simp

subsection \<open>The facet lists\<close>

lemma set_first_seen: "set (first_seen xs) = set xs"
  by (induction xs rule: first_seen.induct) auto

lemma distinct_first_seen: "distinct (first_seen xs)"
  by (induction xs rule: first_seen.induct) (auto simp: set_first_seen)

lemma foldl_Set_add:
  "foldl Set_add acc xs = acc @ first_seen (filter (\<lambda>x. x \<notin> set acc) xs)"
proof (induction xs arbitrary: acc)
  case Nil
  then show ?case by simp
next
  case (Cons x xs)
  show ?case
  proof (cases "x \<in> set acc")
    case True
    then have "Set_add acc x = acc"
      by (simp add: Set_add_def)
    then have "foldl Set_add acc (x # xs) = foldl Set_add acc xs"
      by simp
    with True show ?thesis
      by (simp only: Cons.IH) simp
  next
    case False
    then have "Set_add acc x = acc @ [x]"
      by (simp add: Set_add_def)
    then have "foldl Set_add acc (x # xs) = foldl Set_add (acc @ [x]) xs"
      by simp
    moreover have "filter (\<lambda>y. y \<notin> set (acc @ [x])) xs
            = filter (\<lambda>y. y \<noteq> x) (filter (\<lambda>y. y \<notin> set acc) xs)"
      by (induction xs) auto
    ultimately show ?thesis
      using False by (simp only: Cons.IH) simp
  qed
qed

lemma new_Set_first_seen: "new_Set xs = first_seen xs"
  by (simp add: new_Set_def foldl_Set_add)

lemma foldl_foldl_concat: "foldl (\<lambda>acc t. foldl f acc (g t)) acc ts = foldl f acc (concat (map g ts))"
  by (induction ts arbitrary: acc) auto

lemma features_options_first_seen:
  "features_options temples = ALL_OPTION # sort (first_seen (concat (map features temples)))"
proof -
  have "foldl (\<lambda>acc t. foldl Set_add acc (features t)) [] temples
          = foldl Set_add [] (concat (map features temples))"
    by (rule foldl_foldl_concat)
  also have "\<dots> = first_seen (concat (map features temples))"
    by (simp add: foldl_Set_add)
  finally show ?thesis
    by (simp only: features_options_def)
qed

text \<open>
  Claim C8, as amended. For every catalogue, each facet list is the sentinel \<^verbatim>\<open>All\<close>
  followed by the distinct values present. The lists of regions, traditions and
  environments keep the order in which the values are seen first in the catalogue. The
  list of features, taken from the features of all temples together, is sorted by code
  units: it is the sorted list of the set of features in the order of strings that
  compares them code unit by code unit, in which every upper-case letter comes before
  every lower-case one. An empty catalogue gives the sentinel alone in each list.
\<close>

theorem facet_lists:
  "regions temples = ALL_OPTION # first_seen (map region temples)
   \<and> traditions temples = ALL_OPTION # first_seen (map tradition temples)
   \<and> environments temples = ALL_OPTION # first_seen (map environment temples)
   \<and> features_options temples
       = ALL_OPTION # sorted_list_of_set (\<Union>t \<in> set temples. set (features t))
   \<and> distinct (first_seen (map region temples))
   \<and> set (first_seen (map region temples)) = region ` set temples
   \<and> distinct (first_seen (map tradition temples))
   \<and> set (first_seen (map tradition temples)) = tradition ` set temples
   \<and> distinct (first_seen (map environment temples))
   \<and> set (first_seen (map environment temples)) = environment ` set temples
   \<and> regions [] = [ALL_OPTION] \<and> traditions [] = [ALL_OPTION]
   \<and> environments [] = [ALL_OPTION] \<and> features_options [] = [ALL_OPTION]"
proof -
  let ?fs = "first_seen (concat (map features temples))"
  have "sort ?fs = sorted_list_of_set (set ?fs)"
    using distinct_first_seen [of "concat (map features temples)"]
    by (simp add: sorted_list_of_set_sort_remdups distinct_remdups_id)
  moreover have "set ?fs = (\<Union>t \<in> set temples. set (features t))"
    by (simp add: set_first_seen)
  ultimately have "features_options temples
       = ALL_OPTION # sorted_list_of_set (\<Union>t \<in> set temples. set (features t))"
    by (simp add: features_options_first_seen)
  moreover have "features_options [] = [ALL_OPTION]"
    by (simp add: features_options_def)
  ultimately show ?thesis
    by (simp add: regions_def traditions_def environments_def new_Set_first_seen
          distinct_first_seen set_first_seen)
qed

theorem facet_lists_witness:
  "regions [angkorWat, borobudur, angkorWat] = [''All'', ''Southeast Asia'']
   \<and> environments [angkorWat, borobudur, angkorWat] = [''All'', ''Jungle'', ''Volcanic'']
   \<and> features_options [angkorWat, borobudur] = [''All'', ''Sunrise Views'', ''UNESCO Site'']"
proof -
  have a: "first_seen (map region [angkorWat, borobudur, angkorWat]) = [''Southeast Asia'']"
    by code_simp
  have b: "first_seen (map environment [angkorWat, borobudur, angkorWat]) = [''Jungle'', ''Volcanic'']"
    by code_simp
  have c: "features_options [angkorWat, borobudur] = [''All'', ''Sunrise Views'', ''UNESCO Site'']"
    by code_simp
  have r: "regions [angkorWat, borobudur, angkorWat]
             = ALL_OPTION # first_seen (map region [angkorWat, borobudur, angkorWat])"
    by (rule facet_lists [THEN conjunct1])
  have e: "environments [angkorWat, borobudur, angkorWat]
             = ALL_OPTION # first_seen (map environment [angkorWat, borobudur, angkorWat])"
    by (rule facet_lists [THEN conjunct2, THEN conjunct2, THEN conjunct1])
  from r e c show ?thesis
    by (simp only: a b ALL_OPTION_def)
qed

text \<open>
  The claim as stated fails: the order by code units is not the alphabetical one. With
  the features \<^verbatim>\<open>UNESCO Site\<close> and \<^verbatim>\<open>Ukiyo Prints\<close> in the catalogue, the first
  stands before the second in the list, and the alphabet has them the other way round.
\<close>

theorem facet_lists_counterexample:
  "features_options [angkorWat, kinkakuji]
     = [''All'', ''Sunrise Views'', ''UNESCO Site'', ''Ukiyo Prints'', ''Zen Garden'']
   \<and> \<not> alphabetical (tl (features_options [angkorWat, kinkakuji]))
   \<and> alphabetical [''Sunrise Views'', ''Ukiyo Prints'', ''UNESCO Site'', ''Zen Garden'']"
  by code_simp

subsection \<open>The insights\<close>

lemma first_seen_snoc:
  "first_seen (xs @ [x]) = (if x \<in> set xs then first_seen xs else first_seen xs @ [x])"
proof -
  have "new_Set (xs @ [x]) = Set_add (new_Set xs) x"
    by (simp add: new_Set_def)
  then show ?thesis
    by (simp add: new_Set_first_seen Set_add_def set_first_seen)
qed

lemma Map_get_keyed:
  "Map_get (map (\<lambda>k. (k, f k)) ks) x = (if x \<in> set ks then Some (f x) else None)"
  by (induction ks) auto

lemma Map_set_keyed:
  "distinct ks \<Longrightarrow>
     Map_set (map (\<lambda>k. (k, f k)) ks) x v =
       (if x \<in> set ks then map (\<lambda>k. (k, if k = x then v else f k)) ks
        else map (\<lambda>k. (k, f k)) ks @ [(x, v)])"
  by (induction ks) auto

lemma count_fold:
  fixes emb :: "nat \<Rightarrow> 'v"
  assumes inc0: "inc None = emb 1" and incS: "\<And>n. inc (Some (emb n)) = emb (Suc n)"
  shows "foldl (\<lambda>acc k. Map_set acc k (inc (Map_get acc k))) [] xs
           = map (\<lambda>k. (k, emb (count_list xs k))) (first_seen xs)"
proof (induction xs rule: rev_induct)
  case Nil
  then show ?case by simp
next
  case (snoc x xs)
  let ?m = "map (\<lambda>k. (k, emb (count_list xs k))) (first_seen xs)"
  have step: "foldl (\<lambda>acc k. Map_set acc k (inc (Map_get acc k))) [] (xs @ [x])
          = Map_set ?m x (inc (Map_get ?m x))"
    by (simp add: snoc.IH)
  show ?case
  proof (cases "x \<in> set xs")
    case True
    then have "Map_get ?m x = Some (emb (count_list xs x))"
      by (simp add: Map_get_keyed set_first_seen)
    then have "Map_set ?m x (inc (Map_get ?m x))
                 = map (\<lambda>k. (k, if k = x then emb (Suc (count_list xs x)) else emb (count_list xs k)))
                     (first_seen xs)"
      using True by (simp add: incS Map_set_keyed distinct_first_seen set_first_seen)
    also have "\<dots> = map (\<lambda>k. (k, emb (count_list (xs @ [x]) k))) (first_seen (xs @ [x]))"
      using True by (simp add: first_seen_snoc)
    finally show ?thesis using step by simp
  next
    case False
    then have "Map_get ?m x = None"
      by (simp add: Map_get_keyed set_first_seen)
    then have "Map_set ?m x (inc (Map_get ?m x)) = ?m @ [(x, emb 1)]"
      using False by (simp add: inc0 Map_set_keyed distinct_first_seen set_first_seen)
    also have "\<dots> = map (\<lambda>k. (k, emb (count_list (xs @ [x]) k))) (first_seen (xs @ [x]))"
      using False by (auto simp: first_seen_snoc set_first_seen)
    finally show ?thesis using step by simp
  qed
qed

lemma find_filter: "find P xs = (case filter P xs of [] \<Rightarrow> None | y # ys \<Rightarrow> Some y)"
  by (induction xs) auto

lemma find_keyed:
  "find P (map (\<lambda>k. (k, f k)) ks) = map_option (\<lambda>k. (k, f k)) (find (\<lambda>k. P (k, f k)) ks)"
  by (induction ks) auto

lemma find_filter_neq: "\<not> P x \<Longrightarrow> find P (filter (\<lambda>y. y \<noteq> x) xs) = find P xs"
  by (induction xs) auto

lemma find_first_seen: "find P (first_seen xs) = find P xs"
  by (induction xs rule: first_seen.induct) (auto simp: find_filter_neq)

lemma head_sort_key:
  fixes f :: "'a \<Rightarrow> 'b::linorder"
  shows "(case sort_key f xs of [] \<Rightarrow> None | y # ys \<Rightarrow> Some y)
           = find (\<lambda>x. \<forall>z \<in> set xs. f x \<le> f z) xs"
proof (cases "sort_key f xs")
  case Nil
  then have "set xs = {}" by (metis set_sort set_empty)
  then show ?thesis using Nil by simp
next
  case (Cons y ys)
  have "set (y # ys) = set xs"
    using Cons by (metis set_sort)
  moreover have "sorted (map f (y # ys))"
    using Cons by (metis sorted_sort_key)
  ultimately have least: "\<forall>z \<in> set xs. f y \<le> f z" and y: "y \<in> set xs"
    by auto
  have "find (\<lambda>x. \<forall>z \<in> set xs. f x \<le> f z) xs = find (\<lambda>x. f x = f y) xs"
  proof (rule find_cong [OF refl])
    fix x assume "x \<in> set xs"
    with least y show "(\<forall>z \<in> set xs. f x \<le> f z) = (f x = f y)"
      by (auto intro: antisym)
  qed
  moreover have "filter (\<lambda>x. f x = f y) xs = filter (\<lambda>x. f x = f y) (sort_key f xs)"
    by (simp add: sort_key_stable)
  ultimately show ?thesis
    using Cons by (simp add: find_filter)
qed

lemma head_of_counts:
  fixes emb :: "nat \<Rightarrow> 'v"
  assumes cmp: "\<And>k m k' n. positive (cmp (k, emb m) (k', emb n)) \<longleftrightarrow> m < n"
  shows "(case Array_sort cmp (map (\<lambda>k. (k, emb (count_list xs k))) (first_seen xs)) of
            [] \<Rightarrow> None | e # es \<Rightarrow> Some (fst e))
           = first_most_common xs"
proof -
  let ?g = "\<lambda>k. (k, emb (count_list xs k))"
  let ?E = "map ?g (first_seen xs)"
  let ?key = "\<lambda>e. - int (count_list xs (fst e))"
  have sort: "Array_sort cmp ?E = sort_key ?key ?E"
  proof (rule Array_sort_sort_key)
    fix a b assume "a \<in> set ?E" "b \<in> set ?E"
    then obtain k k' where "a = ?g k" "b = ?g k'" by auto
    then show "positive (cmp a b) \<longleftrightarrow> ?key b < ?key a"
      by (simp add: cmp)
  qed
  have "(case Array_sort cmp ?E of [] \<Rightarrow> None | e # es \<Rightarrow> Some (fst e))
          = map_option fst (case sort_key ?key ?E of [] \<Rightarrow> None | e # es \<Rightarrow> Some e)"
    by (simp add: sort split: list.split)
  also have "\<dots> = map_option fst (find (\<lambda>e. \<forall>z \<in> set ?E. ?key e \<le> ?key z) ?E)"
    by (simp only: head_sort_key)
  also have "\<dots> = find (\<lambda>k. \<forall>z \<in> set ?E. ?key (?g k) \<le> ?key z) (first_seen xs)"
    by (simp add: find_keyed option.map_comp comp_def option.map_ident)
  also have "\<dots> = find (\<lambda>k. \<forall>k' \<in> set xs. count_list xs k' \<le> count_list xs k) (first_seen xs)"
    by (simp add: set_first_seen)
  also have "\<dots> = first_most_common xs"
    by (simp add: find_first_seen first_most_common_def list_all_iff)
  finally show ?thesis .
qed

lemma featureCounts_counts:
  "featureCounts results
     = map (\<lambda>k. (k, count_list (concat (map (\<lambda>r. features (temple r)) results)) k))
         (first_seen (concat (map (\<lambda>r. features (temple r)) results)))"
  unfolding featureCounts_def
  using count_fold [of "\<lambda>v. (case v of None \<Rightarrow> 0 | Some n \<Rightarrow> n) + 1" "\<lambda>n. n"]
  by simp

lemma proto_not_plain: "plain_key k \<Longrightarrow> k \<noteq> ''__proto__''"
  by (auto simp: plain_key_def Object_prototype_names_def)

lemma Object_set_plain: "plain_key k \<Longrightarrow> Object_set obj k v = Map_set obj k v"
  using proto_not_plain by (simp add: Object_set_def)

lemma Object_get_plain: "plain_key k \<Longrightarrow> Object_get obj k = Map_get obj k"
  by (simp add: Object_get_def plain_key_def split: option.split)

lemma topTraditions_counts:
  assumes "\<forall>r \<in> set results. plain_key (tradition (temple r))"
  shows "topTraditions results
     = map (\<lambda>k. (k, Count (count_list (map (\<lambda>r. tradition (temple r)) results) k)))
         (first_seen (map (\<lambda>r. tradition (temple r)) results))"
proof -
  let ?xs = "map (\<lambda>r. tradition (temple r)) results"
  have "topTraditions results
          = foldl (\<lambda>acc k. Object_set acc k (increment (Object_get acc k))) [] ?xs"
    by (simp add: topTraditions_def foldl_map)
  also have "\<dots> = foldl (\<lambda>acc k. Map_set acc k (increment (Map_get acc k))) [] ?xs"
  proof (rule foldl_cong [OF refl refl])
    fix acc k assume "k \<in> set ?xs"
    with assms have "plain_key k" by auto
    then show "Object_set acc k (increment (Object_get acc k))
                 = Map_set acc k (increment (Map_get acc k))"
      by (simp add: Object_set_plain Object_get_plain)
  qed
  also have "\<dots> = map (\<lambda>k. (k, Count (count_list ?xs k))) (first_seen ?xs)"
    by (rule count_fold) simp_all
  finally show ?thesis .
qed

lemma Object_entries_plain:
  assumes "\<forall>e \<in> set obj. plain_key (fst e)"
  shows "Object_entries obj = obj"
proof -
  have "filter (\<lambda>e. array_index (fst e) \<noteq> None) obj = []"
    using assms by (auto simp: filter_empty_conv plain_key_def)
  moreover have "filter (\<lambda>e. array_index (fst e) = None) obj = obj"
    using assms by (auto simp: filter_id_conv plain_key_def)
  ultimately show ?thesis
    by (simp add: Object_entries_def)
qed

text \<open>
  Claim C10, as amended. The standout feature is the feature with the highest number of
  occurrences in the features of the results; where several features have that number,
  it is the one whose first occurrence comes first in the order of the result list. The
  same holds of the most common tradition, provided that no tradition among the results
  is an array index or the name of a member of \<^verbatim>\<open>Object.prototype\<close>. With no results
  there is no value. The order that decides is that of the result list, which the sort
  order determines.
\<close>

theorem tie_break_follows_result_order:
  "standoutFeature (insights results)
     = first_most_common (concat (map (\<lambda>r. features (temple r)) results))
   \<and> ((\<forall>r \<in> set results. plain_key (tradition (temple r))) \<longrightarrow>
        mostCommonTradition (insights results)
          = first_most_common (map (\<lambda>r. tradition (temple r)) results))"
proof -
  have feat: "standoutFeature (insights results)
     = first_most_common (concat (map (\<lambda>r. features (temple r)) results))"
    unfolding insights_def featureCounts_counts
    using head_of_counts [of "\<lambda>a b. Finite (of_nat (snd b) - of_nat (snd a))" "\<lambda>n. n"]
    by simp
  have trad: "mostCommonTradition (insights results)
          = first_most_common (map (\<lambda>r. tradition (temple r)) results)"
    if plain: "\<forall>r \<in> set results. plain_key (tradition (temple r))"
  proof -
    let ?xs = "map (\<lambda>r. tradition (temple r)) results"
    let ?E = "map (\<lambda>k. (k, Count (count_list ?xs k))) (first_seen ?xs)"
    have E: "topTraditions results = ?E"
      using plain by (rule topTraditions_counts)
    have "\<forall>e \<in> set ?E. plain_key (fst e)"
      using plain by (auto simp: set_first_seen)
    then have "Object_entries ?E = ?E"
      by (rule Object_entries_plain)
    then have "mostCommonTradition (insights results)
          = (case Array_sort (\<lambda>a b. subtract (snd b) (snd a)) ?E of
               [] \<Rightarrow> None | e # es \<Rightarrow> Some (fst e))"
      by (simp add: insights_def E)
    also have "\<dots> = first_most_common ?xs"
      by (rule head_of_counts) simp
    finally show ?thesis .
  qed
  from feat trad show ?thesis by blast
qed


theorem tie_break_follows_result_order_witness:
  "list_all (\<lambda>r. plain_key (tradition (temple r)))
     (rankedTemples [angkorWat, borobudur\<lparr>features := [''Stupa Terraces'']\<rparr>]
        (allQuery [] Oldest))
   \<and> map (\<lambda>r. tradition (temple r))
       (rankedTemples [angkorWat, borobudur\<lparr>features := [''Stupa Terraces'']\<rparr>]
          (allQuery [] Oldest))
     = [''Buddhist'', ''Hindu-Buddhist'']
   \<and> mostCommonTradition
       (insights (rankedTemples [angkorWat, borobudur\<lparr>features := [''Stupa Terraces'']\<rparr>]
          (allQuery [] Oldest)))
     = Some ''Buddhist''
   \<and> standoutFeature
       (insights (rankedTemples [angkorWat, borobudur\<lparr>features := [''Stupa Terraces'']\<rparr>]
          (allQuery [] Oldest)))
     = Some ''Stupa Terraces''"
proof -
  let ?rs = "rankedTemples [angkorWat, borobudur\<lparr>features := [''Stupa Terraces'']\<rparr>]
               (allQuery [] Oldest)"
  have h: "list_all (\<lambda>r. plain_key (tradition (temple r))) ?rs"
    by code_simp
  have t: "map (\<lambda>r. tradition (temple r)) ?rs = [''Buddhist'', ''Hindu-Buddhist'']"
    by code_simp
  have f: "concat (map (\<lambda>r. features (temple r)) ?rs)
             = [''Stupa Terraces'', ''UNESCO Site'', ''Sunrise Views'']"
    by code_simp
  have mt: "first_most_common [''Buddhist'', ''Hindu-Buddhist''] = Some ''Buddhist''"
    by code_simp
  have mf: "first_most_common [''Stupa Terraces'', ''UNESCO Site'', ''Sunrise Views'']
              = Some ''Stupa Terraces''"
    by code_simp
  from tie_break_follows_result_order [of ?rs] h
  have "standoutFeature (insights ?rs) = first_most_common (concat (map (\<lambda>r. features (temple r)) ?rs))"
    and "mostCommonTradition (insights ?rs) = first_most_common (map (\<lambda>r. tradition (temple r)) ?rs)"
    by (simp_all add: list_all_iff)
  with h t f mt mf show ?thesis
    by (simp only: simp_thms)
qed

text \<open>
  The claim as stated fails for traditions that are array indices: the object lists such
  keys in ascending numeric order, whatever the order of their creation.
\<close>

theorem tie_break_follows_result_order_counterexample:
  "map (\<lambda>r. tradition (temple r))
     (rankedTemples [angkorWat\<lparr>tradition := ''2''\<rparr>, borobudur\<lparr>tradition := ''1''\<rparr>]
        (allQuery [] Relevance))
     = [''2'', ''1'']
   \<and> first_most_common [''2'', ''1''] = Some ''2''
   \<and> mostCommonTradition
       (insights (rankedTemples [angkorWat\<lparr>tradition := ''2''\<rparr>, borobudur\<lparr>tradition := ''1''\<rparr>]
          (allQuery [] Relevance)))
     = Some ''1''"
  by code_simp

text \<open>
  Claim C1. For the empty result list the insights have no value for
  \<^verbatim>\<open>mostCommonTradition\<close> and \<^verbatim>\<open>standoutFeature\<close> and 0 for \<^verbatim>\<open>uniqueCountries\<close>, as the
  claim says. The \<^verbatim>\<open>averageFoundedYear\<close> is the number 0, where the claim says that it
  is unavailable: the sum 0 is divided by \<^verbatim>\<open>Math.max(0, 1)\<close>, so that no NaN arises and
  the component, which shows the dash for an average that is NaN, shows the year 0. The
  empty list is reached from a catalogue of two temples with two selections taken from
  its own facet lists.
\<close>

theorem insights_of_no_results:
  "insights []
     = \<lparr>uniqueCountries = 0, mostCommonTradition = None,
        averageFoundedYear = Finite 0, standoutFeature = None\<rparr>
   \<and> \<not> Number_isNaN (averageFoundedYear (insights []))
   \<and> averageShown (insights []) = Some (Finite 0)
   \<and> ''Volcanic'' \<in> set (environments [angkorWat, borobudur])
   \<and> ''Sunrise Views'' \<in> set (features_options [angkorWat, borobudur])
   \<and> rankedTemples [angkorWat, borobudur]
        ((allQuery [] Relevance)
           \<lparr>selectedEnvironment := ''Volcanic'', selectedFeature := ''Sunrise Views''\<rparr>)
       = []"
  by code_simp

end
